theory Spec2Isabelle
  imports Main "HOL-Library.Code_Target_Nat"
begin

section \<open>JavaScript strings and thrown values\<close>

text \<open>
  A JavaScript string is a sequence of UTF-16 code units. A code unit is modelled by its
  number; the program does no arithmetic on code units, it only compares them, so no
  wrap-around can occur. \<open>js\<close> turns an ASCII literal into such a string.
\<close>

type_synonym jschar = nat
type_synonym jsstring = "jschar list"

definition js :: "string \<Rightarrow> jsstring" where
  "js s = map of_char s"

definition LF :: jschar where
  "LF = 10"

text \<open>Every \<open>throw\<close> of the program is a value of this type.\<close>

datatype js_error = SyntaxError | TypeError | Error jsstring

text \<open>
  \<open>String.prototype.trim\<close> removes WhiteSpace and LineTerminator code units from both
  ends.
\<close>

definition isWhiteSpace :: "jschar \<Rightarrow> bool" where
  "isWhiteSpace c =
     (c = 0x09 \<or> c = 0x0A \<or> c = 0x0B \<or> c = 0x0C \<or> c = 0x0D \<or> c = 0x20 \<or> c = 0xA0
      \<or> c = 0x1680 \<or> (0x2000 \<le> c \<and> c \<le> 0x200A) \<or> c = 0x2028 \<or> c = 0x2029
      \<or> c = 0x202F \<or> c = 0x205F \<or> c = 0x3000 \<or> c = 0xFEFF)"

definition trim :: "jsstring \<Rightarrow> jsstring" where
  "trim s = rev (dropWhile isWhiteSpace (rev (dropWhile isWhiteSpace s)))"

section \<open>JSON.parse\<close>

text \<open>
  The values \<open>JSON.parse\<close> produces. A number is kept as its decimal reading
  \<open>m * 10 ^ e\<close>: the program never computes with one, it only tests whether one is
  truthy. An object keeps its properties in the order of their first occurrence.
\<close>

datatype json =
  JNull
| JBool bool
| JNumber int int
| JString jsstring
| JArray "json list"
| JObject "(jsstring \<times> json) list"

text \<open>The outcome of a parsing function: the value with the rest of the input, or a failure.\<close>

datatype 'a parse_result = Ok 'a jsstring | SyntaxErr | OutOfFuel

definition isJsonWhiteSpace :: "jschar \<Rightarrow> bool" where
  "isJsonWhiteSpace c = (c = 0x09 \<or> c = 0x0A \<or> c = 0x0D \<or> c = 0x20)"

definition skip_ws :: "jsstring \<Rightarrow> jsstring" where
  "skip_ws s = dropWhile isJsonWhiteSpace s"

definition isDigit :: "jschar \<Rightarrow> bool" where
  "isDigit c = (0x30 \<le> c \<and> c \<le> 0x39)"

definition hex_value :: "jschar \<Rightarrow> nat option" where
  "hex_value c =
     (if 0x30 \<le> c \<and> c \<le> 0x39 then Some (c - 0x30)
      else if 0x41 \<le> c \<and> c \<le> 0x46 then Some (c - 0x41 + 10)
      else if 0x61 \<le> c \<and> c \<le> 0x66 then Some (c - 0x61 + 10)
      else None)"

text \<open>The code unit that four hexadecimal digits stand for.\<close>

definition hex4 :: "nat \<Rightarrow> nat \<Rightarrow> nat \<Rightarrow> nat \<Rightarrow> jschar" where
  "hex4 a b c d = ((a * 16 + b) * 16 + c) * 16 + d"

text \<open>The escape characters of a JSON string, after the backslash.\<close>

definition escape_value :: "jschar \<Rightarrow> jschar option" where
  "escape_value c =
     (if c = 0x22 then Some 0x22
      else if c = 0x5C then Some 0x5C
      else if c = 0x2F then Some 0x2F
      else if c = 0x62 then Some 0x08
      else if c = 0x66 then Some 0x0C
      else if c = 0x6E then Some 0x0A
      else if c = 0x72 then Some 0x0D
      else if c = 0x74 then Some 0x09
      else None)"

text \<open>
  The characters of a string after its opening quote, up to the closing quote. A
  quote, a backslash or a control character cannot stand for itself.
\<close>

fun parse_string_chars :: "jsstring \<Rightarrow> (jsstring \<times> jsstring) option" where
  "parse_string_chars [] = None"
| "parse_string_chars (c # cs) =
     (if c = 0x22 then Some ([], cs)
      else if c = 0x5C then
        (case cs of
           [] \<Rightarrow> None
         | e # r \<Rightarrow>
             if e = 0x75 then
               (case r of
                  h1 # h2 # h3 # h4 # r' \<Rightarrow>
                    (case (hex_value h1, hex_value h2, hex_value h3, hex_value h4) of
                       (Some a, Some b, Some c', Some d) \<Rightarrow>
                         (case parse_string_chars r' of
                            None \<Rightarrow> None
                          | Some (str, rest) \<Rightarrow>
                              Some (hex4 a b c' d # str, rest))
                     | _ \<Rightarrow> None)
                | _ \<Rightarrow> None)
             else
               (case escape_value e of
                  None \<Rightarrow> None
                | Some v \<Rightarrow>
                    (case parse_string_chars r of
                       None \<Rightarrow> None
                     | Some (str, rest) \<Rightarrow> Some (v # str, rest))))
      else if c < 0x20 then None
      else
        (case parse_string_chars cs of
           None \<Rightarrow> None
         | Some (str, rest) \<Rightarrow> Some (c # str, rest)))"

definition digits_value :: "jsstring \<Rightarrow> nat" where
  "digits_value ds = foldl (\<lambda>a c. 10 * a + (c - 0x30)) 0 ds"

text \<open>The integer part of a number: a single \<open>0\<close>, or digits that start with a nonzero one.\<close>

definition parse_int_part :: "jsstring \<Rightarrow> (jsstring \<times> jsstring) option" where
  "parse_int_part s =
     (case s of
        [] \<Rightarrow> None
      | c # r \<Rightarrow>
          if c = 0x30 then Some ([c], r)
          else if isDigit c then Some (takeWhile isDigit s, dropWhile isDigit s)
          else None)"

text \<open>The fraction: absent, or a point with at least one digit.\<close>

definition parse_frac :: "jsstring \<Rightarrow> (jsstring \<times> jsstring) option" where
  "parse_frac s =
     (case s of
        [] \<Rightarrow> Some ([], s)
      | c # r \<Rightarrow>
          if c = 0x2E then
            (if takeWhile isDigit r = [] then None
             else Some (takeWhile isDigit r, dropWhile isDigit r))
          else Some ([], s))"

text \<open>The exponent: absent, or \<open>e\<close> or \<open>E\<close>, an optional sign and at least one digit.\<close>

definition parse_exp :: "jsstring \<Rightarrow> (int \<times> jsstring) option" where
  "parse_exp s =
     (case s of
        [] \<Rightarrow> Some (0, s)
      | c # r \<Rightarrow>
          if c = 0x65 \<or> c = 0x45 then
            (let (sign, r') =
                   (case r of
                      [] \<Rightarrow> (1, r)
                    | d # r2 \<Rightarrow>
                        if d = 0x2B then (1, r2) else if d = 0x2D then (- 1, r2) else (1, r))
             in if takeWhile isDigit r' = [] then None
                else Some (sign * int (digits_value (takeWhile isDigit r')),
                           dropWhile isDigit r'))
          else Some (0, s))"

definition parse_number :: "jsstring \<Rightarrow> json parse_result" where
  "parse_number s =
     (let (neg, s1) = (case s of [] \<Rightarrow> (False, s)
                       | c # r \<Rightarrow> if c = 0x2D then (True, r) else (False, s))
      in case parse_int_part s1 of
           None \<Rightarrow> SyntaxErr
         | Some (ip, s2) \<Rightarrow>
             (case parse_frac s2 of
                None \<Rightarrow> SyntaxErr
              | Some (fp, s3) \<Rightarrow>
                  (case parse_exp s3 of
                     None \<Rightarrow> SyntaxErr
                   | Some (ex, s4) \<Rightarrow>
                       Ok (JNumber ((if neg then - 1 else 1) * int (digits_value (ip @ fp)))
                                   (ex - int (length fp))) s4)))"

text \<open>
  Defining a property that the object already has replaces its value and keeps its
  place, so of two members with the same key the later value stands.
\<close>

fun obj_put :: "jsstring \<Rightarrow> json \<Rightarrow> (jsstring \<times> json) list \<Rightarrow> (jsstring \<times> json) list" where
  "obj_put k v [] = [(k, v)]"
| "obj_put k v ((k', v') # ps) = (if k = k' then (k, v) # ps else (k', v') # obj_put k v ps)"

text \<open>
  The grammar of JSON values, by recursive descent. The first argument bounds the
  number of nested calls; \<open>JSON_parse\<close> starts with a bound that the input cannot use up.
  \<open>parse_elements\<close> reads the elements of an array after its opening bracket, and
  \<open>parse_members\<close> the members of an object after its opening brace, each with the
  elements or members read so far.
\<close>

fun parse_value :: "nat \<Rightarrow> jsstring \<Rightarrow> json parse_result"
  and parse_elements :: "nat \<Rightarrow> json list \<Rightarrow> jsstring \<Rightarrow> json parse_result"
  and parse_members :: "nat \<Rightarrow> (jsstring \<times> json) list \<Rightarrow> jsstring \<Rightarrow> json parse_result"
where
  "parse_value 0 s = OutOfFuel"
| "parse_value (Suc n) s =
     (case s of
        [] \<Rightarrow> SyntaxErr
      | c # cs \<Rightarrow>
          if c = 0x7B then
            (case skip_ws cs of
               [] \<Rightarrow> SyntaxErr
             | c' # r \<Rightarrow> if c' = 0x7D then Ok (JObject []) r
                         else parse_members n [] (c' # r))
          else if c = 0x5B then
            (case skip_ws cs of
               [] \<Rightarrow> SyntaxErr
             | c' # r \<Rightarrow> if c' = 0x5D then Ok (JArray []) r
                         else parse_elements n [] (c' # r))
          else if c = 0x22 then
            (case parse_string_chars cs of
               None \<Rightarrow> SyntaxErr
             | Some (str, r) \<Rightarrow> Ok (JString str) r)
          else if take 4 s = js ''true'' then Ok (JBool True) (drop 4 s)
          else if take 5 s = js ''false'' then Ok (JBool False) (drop 5 s)
          else if take 4 s = js ''null'' then Ok JNull (drop 4 s)
          else parse_number s)"
| "parse_elements 0 acc s = OutOfFuel"
| "parse_elements (Suc n) acc s =
     (case parse_value n s of
        OutOfFuel \<Rightarrow> OutOfFuel
      | SyntaxErr \<Rightarrow> SyntaxErr
      | Ok v r \<Rightarrow>
          (case skip_ws r of
             [] \<Rightarrow> SyntaxErr
           | c # r' \<Rightarrow>
               if c = 0x2C then parse_elements n (acc @ [v]) (skip_ws r')
               else if c = 0x5D then Ok (JArray (acc @ [v])) r'
               else SyntaxErr))"
| "parse_members 0 acc s = OutOfFuel"
| "parse_members (Suc n) acc s =
     (case s of
        [] \<Rightarrow> SyntaxErr
      | q # cs \<Rightarrow>
          if q \<noteq> 0x22 then SyntaxErr
          else
            (case parse_string_chars cs of
               None \<Rightarrow> SyntaxErr
             | Some (key, r1) \<Rightarrow>
                 (case skip_ws r1 of
                    [] \<Rightarrow> SyntaxErr
                  | colon # r2 \<Rightarrow>
                      if colon \<noteq> 0x3A then SyntaxErr
                      else
                        (case parse_value n (skip_ws r2) of
                           OutOfFuel \<Rightarrow> OutOfFuel
                         | SyntaxErr \<Rightarrow> SyntaxErr
                         | Ok v r3 \<Rightarrow>
                             (case skip_ws r3 of
                                [] \<Rightarrow> SyntaxErr
                              | c # r4 \<Rightarrow>
                                  if c = 0x2C then parse_members n (obj_put key v acc) (skip_ws r4)
                                  else if c = 0x7D then Ok (JObject (obj_put key v acc)) r4
                                  else SyntaxErr)))))"

text \<open>
  \<open>JSON.parse(text)\<close>: one value with white space around it and nothing else; anything
  else throws a \<open>SyntaxError\<close>.
\<close>

definition JSON_parse :: "jsstring \<Rightarrow> js_error + json" where
  "JSON_parse s =
     (case parse_value (2 * length s + 2) (skip_ws s) of
        Ok v r \<Rightarrow> if skip_ws r = [] then Inr v else Inl SyntaxError
      | SyntaxErr \<Rightarrow> Inl SyntaxError
      | OutOfFuel \<Rightarrow> Inl SyntaxError)"

section \<open>Reading parsed values\<close>

text \<open>
  \<open>value.name\<close> on a parsed value, for the names the program reads (\<open>message\<close>, \<open>role\<close>,
  \<open>content\<close>, \<open>type\<close>, \<open>text\<close>, \<open>session_id\<close>, \<open>transcript_path\<close>, \<open>cwd\<close>,
  \<open>hook_event_name\<close>, \<open>stop_hook_active\<close>), none of which a prototype defines. Reading
  a property of \<open>null\<close> throws a \<open>TypeError\<close>; a number, a boolean, a string or an array
  has no such property, and \<open>None\<close> stands for \<open>undefined\<close>.
\<close>

fun get_property :: "json \<Rightarrow> jsstring \<Rightarrow> js_error + json option" where
  "get_property JNull key = Inl TypeError"
| "get_property (JObject ps) key = Inr (map_of ps key)"
| "get_property v key = Inr None"

text \<open>\<open>value?.name\<close>: \<open>undefined\<close> when the value is \<open>undefined\<close> or \<open>null\<close>.\<close>

fun get_optional :: "json option \<Rightarrow> jsstring \<Rightarrow> json option" where
  "get_optional None key = None"
| "get_optional (Some (JObject ps)) key = map_of ps key"
| "get_optional (Some v) key = None"

text \<open>
  Truthiness. A number is falsy when it is zero as a double: its digits are all zero, or
  it is so small that it rounds to zero (at most \<open>2 ^ - 1075\<close> in magnitude).
\<close>

fun truthy :: "json \<Rightarrow> bool" where
  "truthy JNull = False"
| "truthy (JBool b) = b"
| "truthy (JNumber m e) = (m \<noteq> 0 \<and> (0 \<le> e \<or> 10 ^ nat (- e) < \<bar>m\<bar> * 2 ^ 1075))"
| "truthy (JString s) = (s \<noteq> [])"
| "truthy (JArray vs) = True"
| "truthy (JObject ps) = True"

text \<open>\<open>typeof value === 'string'\<close>.\<close>

fun typeof_string :: "json option \<Rightarrow> bool" where
  "typeof_string (Some (JString s)) = True"
| "typeof_string v = False"

section \<open>metadata.ts: the tag extractor\<close>

record ClarvisMetadata =
  meta_context :: jsstring
  meta_intent :: jsstring
  meta_project :: "jsstring option"

text \<open>The class \<open>\w\<close> of a regular expression without flags: ASCII letters, digits, underscore.\<close>

definition isWordChar :: "jschar \<Rightarrow> bool" where
  "isWordChar c =
     ((0x41 \<le> c \<and> c \<le> 0x5A) \<or> (0x61 \<le> c \<and> c \<le> 0x7A) \<or> (0x30 \<le> c \<and> c \<le> 0x39)
      \<or> c = 0x5F)"

definition isProjectChar :: "jschar \<Rightarrow> bool" where
  "isProjectChar c = (isWordChar c \<or> c = 0x2D)"

text \<open>
  \<open>/clarvis:\[([^\]]+)\]/\<close> tried at the start of \<open>s\<close>: after the marker, the longest run
  of characters other than \<open>]\<close> must be non-empty and be followed by \<open>]\<close>. The result is
  the first group.
\<close>

definition match_block_here :: "jsstring \<Rightarrow> jsstring option" where
  "match_block_here s =
     (if take 9 s = js ''clarvis:[''
      then (let body = takeWhile (\<lambda>c. c \<noteq> 0x5D) (drop 9 s);
                rest = dropWhile (\<lambda>c. c \<noteq> 0x5D) (drop 9 s)
            in if body \<noteq> [] \<and> rest \<noteq> [] then Some body else None)
      else None)"

text \<open>\<open>message.match(...)\<close>: the match at the leftmost position that has one.\<close>

fun find_block :: "jsstring \<Rightarrow> jsstring option" where
  "find_block [] = None"
| "find_block (c # cs) =
     (case match_block_here (c # cs) of
        Some body \<Rightarrow> Some body
      | None \<Rightarrow> find_block cs)"

text \<open>
  \<open>/key:(\w+)/\<close> and \<open>/project:([\w-]+)/\<close> tried at the start of \<open>s\<close>: the key, then the
  longest non-empty run of characters of the class.
\<close>

definition match_field_here :: "jsstring \<Rightarrow> (jschar \<Rightarrow> bool) \<Rightarrow> jsstring \<Rightarrow> jsstring option" where
  "match_field_here key cls s =
     (if take (length key) s = key
      then (let v = takeWhile cls (drop (length key) s)
            in if v \<noteq> [] then Some v else None)
      else None)"

fun find_field :: "jsstring \<Rightarrow> (jschar \<Rightarrow> bool) \<Rightarrow> jsstring \<Rightarrow> jsstring option" where
  "find_field key cls [] = None"
| "find_field key cls (c # cs) =
     (case match_field_here key cls (c # cs) of
        Some v \<Rightarrow> Some v
      | None \<Rightarrow> find_field key cls cs)"

definition validContexts :: "jsstring list" where
  "validContexts = [js ''assistant'', js ''development'', js ''exploration'', js ''writing'']"

definition validIntents :: "jsstring list" where
  "validIntents =
     [js ''navigation'', js ''discussion'', js ''completion'', js ''status'', js ''error'']"

definition extractMetadata :: "jsstring \<Rightarrow> ClarvisMetadata option" where
  "extractMetadata message =
     (case find_block message of
        None \<Rightarrow> None
      | Some metadataContent \<Rightarrow>
          (case (find_field (js ''context:'') isWordChar metadataContent,
                 find_field (js ''intent:'') isWordChar metadataContent) of
             (Some context, Some intent) \<Rightarrow>
               if context = [] \<or> intent = [] then None
               else if context \<notin> set validContexts then None
               else if intent \<notin> set validIntents then None
               else Some \<lparr>meta_context = context, meta_intent = intent,
                          meta_project = find_field (js ''project:'') isProjectChar metadataContent\<rparr>
           | _ \<Rightarrow> None))"

section \<open>transcript.ts: the transcript resolver\<close>

record resolved_message =
  msg_text :: jsstring
  msg_metadata :: "ClarvisMetadata option"

definition no_message :: resolved_message where
  "no_message = \<lparr>msg_text = [], msg_metadata = None\<rparr>"

text \<open>\<open>s.split('\n')\<close>.\<close>

fun split_on :: "jschar \<Rightarrow> jsstring \<Rightarrow> jsstring list" where
  "split_on d [] = [[]]"
| "split_on d (c # cs) =
     (if c = d then [] # split_on d cs
      else (case split_on d cs of
              [] \<Rightarrow> [[c]]
            | l # ls \<Rightarrow> (c # l) # ls))"

text \<open>
  The loop that rebuilds the entries: a line is added to the current entry; when the
  entry parses it is kept and a new one is begun, else a line feed is added to it.
\<close>

fun reconstruct :: "jsstring \<Rightarrow> jsstring list \<Rightarrow> jsstring list" where
  "reconstruct currentEntry [] = []"
| "reconstruct currentEntry (line # rest) =
     (case JSON_parse (currentEntry @ line) of
        Inr v \<Rightarrow> (currentEntry @ line) # reconstruct [] rest
      | Inl e \<Rightarrow> reconstruct (currentEntry @ line @ [LF]) rest)"

text \<open>
  The character class of \<open>.\<close> leaves out the line terminators. \<open>tag_tail\<close> matches
  \<open>clarvis:\[.*?\]$\<close> at the start of \<open>s\<close>: the marker, then characters other than line
  terminators up to a \<open>]\<close> that ends the text.
\<close>

definition isLineTerminator :: "jschar \<Rightarrow> bool" where
  "isLineTerminator c = (c = 0x0A \<or> c = 0x0D \<or> c = 0x2028 \<or> c = 0x2029)"

definition tag_tail :: "jsstring \<Rightarrow> bool" where
  "tag_tail s =
     (take 9 s = js ''clarvis:[''
      \<and> (let u = drop 9 s
         in u \<noteq> [] \<and> last u = 0x5D \<and> list_all (\<lambda>c. \<not> isLineTerminator c) (butlast u)))"

text \<open>\<open>/(\n\n?)clarvis:\[.*?\]$/\<close> tried at the start of \<open>s\<close>.\<close>

definition strip_match_here :: "jsstring \<Rightarrow> bool" where
  "strip_match_here s =
     (case s of
        [] \<Rightarrow> False
      | c # r \<Rightarrow>
          c = LF \<and> ((case r of [] \<Rightarrow> False | c2 # r2 \<Rightarrow> c2 = LF \<and> tag_tail r2) \<or> tag_tail r))"

text \<open>
  \<open>text.replace(/(\n\n?)clarvis:\[.*?\]$/g, '')\<close>: a match runs to the end of the text,
  so there is at most one, the leftmost, and the result is the text before it.
\<close>

fun strip_metadata :: "jsstring \<Rightarrow> jsstring" where
  "strip_metadata [] = []"
| "strip_metadata (c # cs) = (if strip_match_here (c # cs) then [] else c # strip_metadata cs)"

text \<open>
  The loop over \<open>message.content\<close> when it is an array: the value of \<open>text\<close> of the first
  item whose \<open>type\<close> is \<open>text\<close> and whose \<open>text\<close> is truthy.
\<close>

fun scan_content_items :: "json list \<Rightarrow> js_error + json option" where
  "scan_content_items [] = Inr None"
| "scan_content_items (contentItem # rest) =
     (case get_property contentItem (js ''type'') of
        Inl e \<Rightarrow> Inl e
      | Inr ty \<Rightarrow>
          if ty = Some (JString (js ''text'')) then
            (case get_property contentItem (js ''text'') of
               Inl e \<Rightarrow> Inl e
             | Inr None \<Rightarrow> scan_content_items rest
             | Inr (Some t) \<Rightarrow> if truthy t then Inr (Some t) else scan_content_items rest)
          else scan_content_items rest)"

text \<open>
  \<open>for (const contentItem of content)\<close> for a truthy \<open>content\<close>: an array gives its
  elements; a string gives strings, which have no \<open>type\<close>; anything else is not iterable.
\<close>

fun scan_content :: "json \<Rightarrow> js_error + json option" where
  "scan_content (JArray items) = scan_content_items items"
| "scan_content (JString s) = Inr None"
| "scan_content v = Inl TypeError"

text \<open>
  What is done with the text that was found: \<open>extractMetadata\<close> calls \<open>match\<close> on it,
  which only a string has.
\<close>

fun found_text :: "json \<Rightarrow> js_error + resolved_message" where
  "found_text (JString t) =
     (case extractMetadata t of
        None \<Rightarrow> Inr \<lparr>msg_text = t, msg_metadata = None\<rparr>
      | Some metadata \<Rightarrow> Inr \<lparr>msg_text = strip_metadata t, msg_metadata = Some metadata\<rparr>)"
| "found_text v = Inl TypeError"

text \<open>
  The body of the \<open>try\<close> for one entry, up to the call of \<open>extractMetadata\<close>:
  \<open>Inr (Some t)\<close> when a content item of type text with a truthy \<open>text\<close> field \<open>t\<close> is
  found, \<open>Inr None\<close> when the entry falls through to the next one, \<open>Inl e\<close> when it throws.
\<close>

definition entry_text :: "jsstring \<Rightarrow> js_error + json option" where
  "entry_text jsonEntry =
     (case JSON_parse jsonEntry of
        Inl e \<Rightarrow> Inl e
      | Inr entry \<Rightarrow>
          (case get_property entry (js ''message'') of
             Inl e \<Rightarrow> Inl e
           | Inr message \<Rightarrow>
               if get_optional message (js ''role'') = Some (JString (js ''assistant''))
               then (case get_optional message (js ''content'') of
                       None \<Rightarrow> Inr None
                     | Some content \<Rightarrow>
                         if truthy content then scan_content content else Inr None)
               else Inr None))"

text \<open>
  The body of the \<open>try\<close> for one entry: \<open>Inr (Some r)\<close> when it returns \<open>r\<close>, \<open>Inr None\<close>
  when it falls through to the next entry, \<open>Inl e\<close> when it throws.
\<close>

definition process_entry :: "jsstring \<Rightarrow> js_error + resolved_message option" where
  "process_entry jsonEntry =
     (case entry_text jsonEntry of
        Inl e \<Rightarrow> Inl e
      | Inr None \<Rightarrow> Inr None
      | Inr (Some t) \<Rightarrow>
          (case found_text t of
             Inl e \<Rightarrow> Inl e
           | Inr r \<Rightarrow> Inr (Some r)))"

text \<open>The loop over the entries; an entry that throws is skipped.\<close>

fun scan_entries :: "jsstring list \<Rightarrow> resolved_message" where
  "scan_entries [] = no_message"
| "scan_entries (jsonEntry # rest) =
     (case process_entry jsonEntry of
        Inr (Some r) \<Rightarrow> r
      | Inr None \<Rightarrow> scan_entries rest
      | Inl e \<Rightarrow> scan_entries rest)"

text \<open>
  \<open>extractLastAssistantMessage(path)\<close>. \<open>read_file\<close> is the file system: the text of
  the file at a path, or the error that reading it throws.
\<close>

definition jsonlEntries :: "jsstring \<Rightarrow> jsstring list" where
  "jsonlEntries content = reconstruct [] (split_on LF (trim content))"

definition lastEntries :: "jsstring list \<Rightarrow> jsstring list" where
  "lastEntries entries = drop (length entries - 20) entries"

definition extractLastAssistantMessage ::
  "(jsstring \<Rightarrow> js_error + jsstring) \<Rightarrow> jsstring \<Rightarrow> resolved_message" where
  "extractLastAssistantMessage read_file path =
     (case read_file path of
        Inl e \<Rightarrow> no_message
      | Inr content \<Rightarrow>
          if trim content = [] then no_message
          else scan_entries (rev (lastEntries (jsonlEntries content))))"

text \<open>
  Before it searches its argument, \<open>extractMetadata\<close> schedules a callback for the debug
  log, \<open>import('./logger.js').then(...)\<close>, which reads \<open>message.length\<close> and calls
  \<open>message.slice(-100)\<close>. A string and an array have \<open>slice\<close>; on any other value the
  callback throws a TypeError, outside every \<open>try\<close> of the program, and the promise it
  belongs to is rejected with no handler.
\<close>

fun log_callback_throws :: "json \<Rightarrow> bool" where
  "log_callback_throws (JString t) = False"
| "log_callback_throws (JArray vs) = False"
| "log_callback_throws v = True"

text \<open>
  Whether the loop over the entries schedules a callback that throws: each entry that the
  loop reaches and that hands a text to \<open>extractMetadata\<close> schedules one, and the loop
  goes on to the next entry when \<open>extractMetadata\<close> throws.
\<close>

fun scan_rejections :: "jsstring list \<Rightarrow> bool" where
  "scan_rejections [] = False"
| "scan_rejections (jsonEntry # rest) =
     (case entry_text jsonEntry of
        Inr (Some t) \<Rightarrow>
          (log_callback_throws t
           \<or> (case found_text t of Inr r \<Rightarrow> False | Inl e \<Rightarrow> scan_rejections rest))
      | Inr None \<Rightarrow> scan_rejections rest
      | Inl e \<Rightarrow> scan_rejections rest)"

definition unhandled_rejection :: "(jsstring \<Rightarrow> js_error + jsstring) \<Rightarrow> jsstring \<Rightarrow> bool" where
  "unhandled_rejection read_file path =
     (case read_file path of
        Inl e \<Rightarrow> False
      | Inr content \<Rightarrow>
          if trim content = [] then False
          else scan_rejections (rev (lastEntries (jsonlEntries content))))"

section \<open>hookParser.ts: the event reader\<close>

text \<open>
  What reading the standard input comes to within the second the reader waits: the
  stream ends with its data, it fails, or the timer fires first.
\<close>

datatype stdin_outcome = StdinEnd jsstring | StdinError | StdinTimeout

text \<open>The part of \<open>parseHookInput\<close> after the input is there, inside the \<open>try\<close>.\<close>

definition parse_event :: "jsstring \<Rightarrow> js_error + json option" where
  "parse_event input =
     (if input = [] then Inr None
      else case JSON_parse input of
        Inl e \<Rightarrow> Inl e
      | Inr parsed \<Rightarrow>
          (case get_property parsed (js ''session_id'') of
             Inl e \<Rightarrow> Inl e
           | Inr session_id \<Rightarrow>
               if \<not> typeof_string session_id then Inr None
               else case get_property parsed (js ''transcript_path'') of
                 Inl e \<Rightarrow> Inl e
               | Inr transcript_path \<Rightarrow>
                   if \<not> typeof_string transcript_path then Inr None
                   else case get_property parsed (js ''cwd'') of
                     Inl e \<Rightarrow> Inl e
                   | Inr cwd \<Rightarrow>
                       if \<not> typeof_string cwd then Inr None
                       else case get_property parsed (js ''hook_event_name'') of
                         Inl e \<Rightarrow> Inl e
                       | Inr hook_event_name \<Rightarrow>
                           if \<not> typeof_string hook_event_name then Inr None
                           else Inr (Some parsed)))"

text \<open>\<open>parseHookInput()\<close>: the event, or \<open>None\<close> for \<open>null\<close>. The \<open>catch\<close> turns every throw into \<open>null\<close>.\<close>

definition parseHookInput :: "stdin_outcome \<Rightarrow> json option" where
  "parseHookInput stdin =
     (case stdin of
        StdinEnd data \<Rightarrow>
          (case parse_event (trim data) of
             Inl e \<Rightarrow> None
           | Inr r \<Rightarrow> r)
      | StdinError \<Rightarrow> None
      | StdinTimeout \<Rightarrow> None)"

section \<open>llm.ts: the summarizer\<close>

record llm_config =
  llm_provider :: jsstring
  llm_apiKey :: "jsstring option"
  llm_endpoint :: "jsstring option"
  llm_model :: jsstring
  llm_base_instruction :: "jsstring option"
  llm_prompts :: "jsstring \<rightharpoonup> jsstring"

text \<open>
  The two provider classes. \<open>OpenAIProvider apiKey model endpoint\<close> and
  \<open>OllamaProvider model endpoint\<close> hold what their constructors store; an absent
  endpoint takes the constructor's default.
\<close>

datatype LLMProvider =
  OpenAIProvider jsstring jsstring jsstring
| OllamaProvider jsstring jsstring

definition new_OpenAIProvider :: "jsstring \<Rightarrow> jsstring \<Rightarrow> jsstring option \<Rightarrow> js_error + LLMProvider" where
  "new_OpenAIProvider apiKey model endpoint =
     (if apiKey = [] then Inl (Error (js ''OpenAI provider requires API key in config''))
      else Inr (OpenAIProvider apiKey model
             (case endpoint of None \<Rightarrow> js ''https://api.openai.com/v1/chat/completions''
              | Some e \<Rightarrow> e)))"

definition new_OllamaProvider :: "jsstring \<Rightarrow> jsstring option \<Rightarrow> LLMProvider" where
  "new_OllamaProvider model endpoint =
     OllamaProvider model
       (case endpoint of None \<Rightarrow> js ''http://localhost:11434/api/generate'' | Some e \<Rightarrow> e)"

record LLMClient =
  provider :: LLMProvider
  prompts :: "jsstring \<rightharpoonup> jsstring"
  baseInstruction :: "jsstring option"

definition new_LLMClient :: "llm_config \<Rightarrow> js_error + LLMClient" where
  "new_LLMClient config =
     (if llm_provider config = js ''openai'' then
        (case new_OpenAIProvider (case llm_apiKey config of None \<Rightarrow> [] | Some k \<Rightarrow> k)
                (llm_model config) (llm_endpoint config) of
           Inl e \<Rightarrow> Inl e
         | Inr p \<Rightarrow> Inr \<lparr>provider = p, prompts = llm_prompts config,
                        baseInstruction = llm_base_instruction config\<rparr>)
      else if llm_provider config = js ''ollama'' then
        Inr \<lparr>provider = new_OllamaProvider (llm_model config) (llm_endpoint config),
             prompts = llm_prompts config,
             baseInstruction = llm_base_instruction config\<rparr>
      else Inl (Error (js ''Unsupported LLM provider: '' @ llm_provider config)))"

text \<open>
  One call \<open>this.provider.summarize(text, prompt, topic, context)\<close>. What the provider
  does with it (an HTTP request to a language model) is outside the program; the model
  takes the provider's answer as a parameter and records every call that is made.
\<close>

record provider_call =
  call_provider :: LLMProvider
  call_text :: jsstring
  call_prompt :: jsstring
  call_topic :: jsstring
  call_context :: jsstring

text \<open>
  What the program takes from its environment: the provider's answer to a call, the
  sentence segmentation of \<open>Intl.Segmenter\<close> (\<open>None\<close> when it throws), and the text that
  a member inherited from \<open>Object.prototype\<close> gives when it is put into a template string.
\<close>

record runtime =
  generate :: "provider_call \<Rightarrow> js_error + jsstring"
  segment :: "jsstring \<Rightarrow> jsstring list option"
  member_text :: "jsstring \<Rightarrow> jsstring"

text \<open>
  \<open>this.prompts[promptKey]\<close> reads a property of an ordinary object: an own property
  when the configuration has one, else whatever \<open>Object.prototype\<close> has under that name.
\<close>

datatype prompt_value = Undefined | StringValue jsstring | InheritedMember jsstring

definition Object_prototype_names :: "jsstring list" where
  "Object_prototype_names =
     [js ''constructor'', js ''hasOwnProperty'', js ''isPrototypeOf'',
      js ''propertyIsEnumerable'', js ''toLocaleString'', js ''toString'', js ''valueOf'',
      js ''__proto__'', js ''__defineGetter__'', js ''__defineSetter__'',
      js ''__lookupGetter__'', js ''__lookupSetter__'']"

definition get_prompt :: "(jsstring \<rightharpoonup> jsstring) \<Rightarrow> jsstring \<Rightarrow> prompt_value" where
  "get_prompt ps key =
     (case ps key of
        Some p \<Rightarrow> StringValue p
      | None \<Rightarrow> if key \<in> set Object_prototype_names then InheritedMember key else Undefined)"

text \<open>\<open>!prompt\<close>: undefined and the empty string are falsy.\<close>

fun prompt_text :: "runtime \<Rightarrow> prompt_value \<Rightarrow> jsstring option" where
  "prompt_text rt Undefined = None"
| "prompt_text rt (StringValue p) = (if p = [] then None else Some p)"
| "prompt_text rt (InheritedMember k) = Some (member_text rt k)"

definition splitIntoSentences :: "runtime \<Rightarrow> jsstring \<Rightarrow> jsstring list" where
  "splitIntoSentences rt text =
     (if length text < 10 then [text]
      else case segment rt text of
             None \<Rightarrow> [text]
           | Some segments \<Rightarrow>
               (let sentences = filter (\<lambda>sentence. length sentence > 0) (map trim segments)
                in if length sentences > 0 then sentences else [text]))"

definition intentInstruction :: "jsstring \<Rightarrow> jsstring \<Rightarrow> jsstring option \<Rightarrow> jsstring" where
  "intentInstruction context intent project =
     [LF, LF] @ js ''CONTEXT: '' @ context @ [LF] @ js ''INTENT: '' @ intent @ [LF]
     @ js ''PROJECT: ''
     @ (case project of None \<Rightarrow> js ''none'' | Some p \<Rightarrow> if p = [] then js ''none'' else p)
     @ [LF, LF]
     @ js ''Use the explicit INTENT provided above - do not infer intent from the message content.''"

definition fullPrompt :: "jsstring option \<Rightarrow> jsstring \<Rightarrow> jsstring \<Rightarrow> jsstring" where
  "fullPrompt base instruction prompt =
     (case base of
        None \<Rightarrow> instruction @ [LF, LF] @ prompt
      | Some b \<Rightarrow> if b = [] then instruction @ [LF, LF] @ prompt
                  else b @ instruction @ [LF, LF] @ prompt)"

text \<open>
  \<open>LLMClient.summarize\<close>. The result is the list of provider calls that were made,
  and either the thrown error or the sentences.
\<close>

definition summarize ::
  "runtime \<Rightarrow> LLMClient \<Rightarrow> jsstring \<Rightarrow> jsstring \<Rightarrow> jsstring \<Rightarrow> jsstring \<Rightarrow> jsstring option
   \<Rightarrow> provider_call list \<times> (js_error + jsstring list)" where
  "summarize rt client text style context intent project =
     (if style = js ''bypass'' then ([], Inr [text])
      else case prompt_text rt (get_prompt (prompts client) style) of
        None \<Rightarrow> ([], Inl (Error (js ''No prompt configured for style: '' @ style)))
      | Some prompt \<Rightarrow>
          (let call = \<lparr>call_provider = provider client,
                       call_text = text,
                       call_prompt = fullPrompt (baseInstruction client)
                                       (intentInstruction context intent project) prompt,
                       call_topic = (case project of None \<Rightarrow> js ''general''
                                     | Some p \<Rightarrow> if p = [] then js ''general'' else p),
                       call_context = context\<rparr>
           in case generate rt call of
                Inl e \<Rightarrow> ([call], Inl e)
              | Inr summary \<Rightarrow> ([call], Inr (map trim (splitIntoSentences rt summary)))))"

section \<open>speaker.ts: the speech dispatcher\<close>

text \<open>
  \<open>cache_threshold\<close> is a number in the source; only its \<open>toString()\<close> is used, so the
  field holds that text. An absent field is \<open>None\<close>.
\<close>

record voice_config =
  voice_provider :: "jsstring option"
  voice_id :: "jsstring option"
  voice_api_key :: "jsstring option"
  voice_cache_threshold :: "jsstring option"

text \<open>A command handed to the shell: the argument vector and the environment.\<close>

type_synonym shell_command = "jsstring list \<times> (jsstring \<times> jsstring) list"

text \<open>
  The speech channel runs one command and reports success (\<open>None\<close>) or the error that
  the awaited shell promise rejects with. It has a state of its own, so that the same
  command may succeed once and fail later.
\<close>

type_synonym 's channel = "'s \<Rightarrow> shell_command \<Rightarrow> js_error option \<times> 's"

datatype channel_event = Begin shell_command | End shell_command "js_error option"

definition truthy_string :: "jsstring option \<Rightarrow> bool" where
  "truthy_string v = (case v of None \<Rightarrow> False | Some s \<Rightarrow> s \<noteq> [])"

definition shouldCache :: "jsstring \<Rightarrow> bool option \<Rightarrow> bool" where
  "shouldCache mode useCache =
     (case useCache of Some b \<Rightarrow> b | None \<Rightarrow> mode \<noteq> js ''full'')"

definition buildCommand :: "voice_config \<Rightarrow> bool \<Rightarrow> jsstring \<Rightarrow> jsstring list" where
  "buildCommand vc cache sentence =
     [js ''lspeak'']
     @ (if \<not> cache then [js ''--no-cache''] else [])
     @ (if truthy_string (voice_provider vc)
        then [js ''--provider'', the (voice_provider vc)] else [])
     @ (if truthy_string (voice_id vc) \<and> voice_provider vc \<noteq> Some (js ''system'')
        then [js ''--voice'', the (voice_id vc)] else [])
     @ (case voice_cache_threshold vc of
          None \<Rightarrow> [] | Some t \<Rightarrow> [js ''--cache-threshold'', t])
     @ [sentence]"

definition speak_env :: "voice_config \<Rightarrow> (jsstring \<times> jsstring) list" where
  "speak_env vc =
     (if voice_provider vc = Some (js ''elevenlabs'') \<and> truthy_string (voice_api_key vc)
      then [(js ''ELEVENLABS_API_KEY'', the (voice_api_key vc))] else [])"

text \<open>
  The loop \<open>for (const sentence of sentences) { await $`...` }\<close>: a call begins, the
  channel answers, the call ends, and a rejected promise leaves the loop.
\<close>

fun speak_loop ::
  "'s channel \<Rightarrow> (jsstring \<Rightarrow> shell_command) \<Rightarrow> 's \<Rightarrow> jsstring list
   \<Rightarrow> 's \<times> channel_event list \<times> js_error option" where
  "speak_loop ch cmd st [] = (st, [], None)"
| "speak_loop ch cmd st (sentence # rest) =
     (case ch st (cmd sentence) of
        (Some e, st') \<Rightarrow> (st', [Begin (cmd sentence), End (cmd sentence) (Some e)], Some e)
      | (None, st') \<Rightarrow>
          (case speak_loop ch cmd st' rest of
             (st'', events, r) \<Rightarrow>
               (st'', Begin (cmd sentence) # End (cmd sentence) None # events, r)))"

definition speak_command :: "voice_config \<Rightarrow> jsstring \<Rightarrow> bool option \<Rightarrow> jsstring \<Rightarrow> shell_command" where
  "speak_command vc mode useCache sentence =
     (buildCommand vc (shouldCache mode useCache) sentence, speak_env vc)"

definition speak ::
  "'s channel \<Rightarrow> voice_config \<Rightarrow> 's \<Rightarrow> jsstring list \<Rightarrow> jsstring \<Rightarrow> bool option
   \<Rightarrow> 's \<times> channel_event list \<times> js_error option" where
  "speak ch vc st sentences mode useCache =
     speak_loop ch (speak_command vc mode useCache) st sentences"

text \<open>
  The calls of a trace, read as completed calls: a call is a command with its outcome,
  and its two events stand next to each other.
\<close>

definition completed_calls :: "(shell_command \<times> js_error option) list \<Rightarrow> channel_event list" where
  "completed_calls calls = concat (map (\<lambda>(c, r). [Begin c, End c r]) calls)"

text \<open>
  \<open>answered ch st calls st'\<close>: the outcomes of the calls are what the channel answered
  when it was given their commands one after the other, from the state \<open>st\<close> to the
  state \<open>st'\<close>.
\<close>

fun answered :: "'s channel \<Rightarrow> 's \<Rightarrow> (shell_command \<times> js_error option) list \<Rightarrow> 's \<Rightarrow> bool" where
  "answered ch st [] st' = (st' = st)"
| "answered ch st ((c, r) # calls) st' =
     (case ch st c of (r', st1) \<Rightarrow> r' = r \<and> answered ch st1 calls st')"

text \<open>
  What the specification asks of one dispatch of the commands \<open>cmds\<close>: the calls are
  answered by the channel, their commands are the first ones of \<open>cmds\<close> in order, only
  the last call can have failed, a normal return has made every call, and a failure is
  the one of the last call.
\<close>

definition dispatched ::
  "'s channel \<Rightarrow> shell_command list \<Rightarrow> 's \<Rightarrow> (shell_command \<times> js_error option) list \<Rightarrow> 's
   \<Rightarrow> js_error option \<Rightarrow> bool" where
  "dispatched ch cmds st calls st' r =
     (answered ch st calls st'
      \<and> map fst calls = take (length calls) cmds
      \<and> list_all (\<lambda>cr. snd cr = None) (butlast calls)
      \<and> (case r of
           None \<Rightarrow> length calls = length cmds \<and> list_all (\<lambda>cr. snd cr = None) calls
         | Some e \<Rightarrow> calls \<noteq> [] \<and> snd (last calls) = Some e))"

section \<open>index.ts: the pipeline\<close>

record context_config =
  ctx_style :: jsstring
  ctx_cache :: "bool option"

record config =
  cfg_contexts :: "jsstring \<rightharpoonup> context_config"
  cfg_llm :: llm_config
  cfg_voice :: "voice_config option"

text \<open>
  What one run of the program meets: the environment variable, the standard input, the
  configuration that \<open>loadConfig\<close> returns or the error it throws, the file system, the
  provider and segmenter, and the speech channel. Of the debug logger the run meets the
  error that \<open>logger.configure(config.debug)\<close> throws, if it throws (the directory of the
  log cannot be made); the methods that write a line catch their own errors.
\<close>

record 's world =
  w_CLARVIS_VOICE :: "jsstring option"
  w_stdin :: stdin_outcome
  w_loadConfig :: "js_error + config"
  w_configure_logger :: "js_error option"
  w_read_file :: "jsstring \<Rightarrow> js_error + jsstring"
  w_runtime :: runtime
  w_channel :: "'s channel"

text \<open>
  What a run did: the provider calls, the channel events, the channel's last state, and
  the error that reached the \<open>catch\<close> of \<open>main\<close>, if one did. Such a run ends in
  \<open>process.exit(0)\<close>.
\<close>

record 's outcome =
  out_calls :: "provider_call list"
  out_events :: "channel_event list"
  out_state :: 's
  out_error :: "js_error option"

text \<open>
  How a run ends: \<open>main\<close> reaches one of its \<open>process.exit(0)\<close>, or the callback that
  \<open>extractMetadata\<close> scheduled throws and its promise is rejected with no handler. The
  \<open>try\<close> of \<open>main\<close> and the \<open>catch\<close> on \<open>main()\<close> do not see that rejection: the runtime
  reports it and ends the process with a failure code. The model ends such a run at the
  resolver and records no call for it.
\<close>

datatype 's run_end = Exit "'s outcome" | UnhandledRejection

text \<open>
  \<open>metadata?.context || 'assistant'\<close>, \<open>metadata?.intent || 'discussion'\<close> and
  \<open>metadata?.project\<close>.
\<close>

definition resolve_tag :: "ClarvisMetadata option \<Rightarrow> jsstring \<times> jsstring \<times> jsstring option" where
  "resolve_tag metadata =
     (case metadata of
        None \<Rightarrow> (js ''assistant'', js ''discussion'', None)
      | Some m \<Rightarrow>
          (if meta_context m = [] then js ''assistant'' else meta_context m,
           if meta_intent m = [] then js ''discussion'' else meta_intent m,
           meta_project m))"

text \<open>\<open>config.contexts[context] || config.contexts.assistant\<close>.\<close>

definition context_config_for :: "config \<Rightarrow> jsstring \<Rightarrow> context_config option" where
  "context_config_for cfg context =
     (case cfg_contexts cfg context of
        Some c \<Rightarrow> Some c
      | None \<Rightarrow> cfg_contexts cfg (js ''assistant''))"

text \<open>
  The steps of \<open>main\<close> from \<open>new LLMClient\<close> to \<open>speaker.speak\<close>. The result is the
  provider calls, the channel's state and events, and the error thrown, if any.
\<close>

definition summarize_and_speak ::
  "runtime \<Rightarrow> 's channel \<Rightarrow> 's \<Rightarrow> config \<Rightarrow> jsstring \<Rightarrow> context_config \<Rightarrow> jsstring \<Rightarrow> jsstring
   \<Rightarrow> jsstring option \<Rightarrow> provider_call list \<times> 's \<times> channel_event list \<times> js_error option" where
  "summarize_and_speak rt ch st cfg text contextConfig context intent project =
     (case new_LLMClient (cfg_llm cfg) of
        Inl e \<Rightarrow> ([], st, [], Some e)
      | Inr llm \<Rightarrow>
          (case summarize rt llm text (ctx_style contextConfig) context intent project of
             (calls, Inl e) \<Rightarrow> (calls, st, [], Some e)
           | (calls, Inr sentences) \<Rightarrow>
               (case cfg_voice cfg of
                  None \<Rightarrow>
                    (calls, st, [],
                     Some (Error (js ''Voice configuration missing from config.toml'')))
                | Some vc \<Rightarrow>
                    if voice_provider vc = Some (js ''elevenlabs'')
                       \<and> \<not> truthy_string (voice_api_key vc)
                    then (calls, st, [],
                          Some (Error (js ''ElevenLabs API key required when using elevenlabs provider'')))
                    else (case speak ch vc st sentences (ctx_style contextConfig)
                                 (ctx_cache contextConfig) of
                            (st', events, r) \<Rightarrow> (calls, st', events, r)))))"

text \<open>The steps of \<open>main\<close> from the resolved message on.\<close>

definition process_message ::
  "runtime \<Rightarrow> 's channel \<Rightarrow> 's \<Rightarrow> config \<Rightarrow> resolved_message
   \<Rightarrow> provider_call list \<times> 's \<times> channel_event list \<times> js_error option" where
  "process_message rt ch st cfg resolved =
     (if msg_text resolved = [] then ([], st, [], None)
      else case resolve_tag (msg_metadata resolved) of
        (context, intent, project) \<Rightarrow>
          (case context_config_for cfg context of
             None \<Rightarrow>
               ([], st, [],
                Some (Error (js ''No configuration found for context '' @ [0x27] @ context
                             @ [0x27] @ js '' and no assistant context configured'')))
           | Some contextConfig \<Rightarrow>
               if ctx_style contextConfig = js ''silent'' then ([], st, [], None)
               else summarize_and_speak rt ch st cfg (msg_text resolved) contextConfig
                      context intent project))"

text \<open>The body of the \<open>try\<close> of \<open>main\<close>, for an event that was read.\<close>

definition handle_event ::
  "'s world \<Rightarrow> 's \<Rightarrow> json \<Rightarrow>
   (provider_call list \<times> 's \<times> channel_event list \<times> js_error option) option" where
  "handle_event w st hook =
     (case w_loadConfig w of
        Inl e \<Rightarrow> Some ([], st, [], Some e)
      | Inr cfg \<Rightarrow>
          (case w_configure_logger w of
             Some e \<Rightarrow> Some ([], st, [], Some e)
           | None \<Rightarrow>
               (let path = (case get_optional (Some hook) (js ''transcript_path'') of
                              Some (JString path) \<Rightarrow> path
                            | _ \<Rightarrow> [])
                in if unhandled_rejection (w_read_file w) path then None
                   else Some (process_message (w_runtime w) (w_channel w) st cfg
                                (extractLastAssistantMessage (w_read_file w) path)))))"

definition fallback_voice :: voice_config where
  "fallback_voice =
     \<lparr>voice_provider = Some (js ''system''), voice_id = None, voice_api_key = None,
      voice_cache_threshold = None\<rparr>"

text \<open>
  \<open>main()\<close>. An error thrown in the \<open>try\<close> is caught: the fixed utterance is spoken
  through the system voice, and a failure of that is dropped.
\<close>

definition main :: "'s world \<Rightarrow> 's \<Rightarrow> 's run_end" where
  "main w st =
     (if w_CLARVIS_VOICE w = Some (js ''off'')
      then Exit \<lparr>out_calls = [], out_events = [], out_state = st, out_error = None\<rparr>
      else case parseHookInput (w_stdin w) of
        None \<Rightarrow> Exit \<lparr>out_calls = [], out_events = [], out_state = st, out_error = None\<rparr>
      | Some hook \<Rightarrow>
          if (case get_optional (Some hook) (js ''stop_hook_active'') of
                None \<Rightarrow> False | Some v \<Rightarrow> truthy v)
          then Exit \<lparr>out_calls = [], out_events = [], out_state = st, out_error = None\<rparr>
          else case handle_event w st hook of
            None \<Rightarrow> UnhandledRejection
          | Some (calls, st', events, None) \<Rightarrow>
              Exit \<lparr>out_calls = calls, out_events = events, out_state = st', out_error = None\<rparr>
          | Some (calls, st', events, Some e) \<Rightarrow>
              (case speak (w_channel w) fallback_voice st' [js ''Sir, processing failed.'']
                      (js ''terse'') None of
                 (st'', events', r) \<Rightarrow>
                   Exit \<lparr>out_calls = calls, out_events = events @ events', out_state = st'',
                         out_error = Some e\<rparr>))"

section \<open>The event descriptor, as the specification words it\<close>

text \<open>
  A well-formed event descriptor is a JSON object whose four required fields
  \<open>session_id\<close>, \<open>transcript_path\<close>, \<open>cwd\<close> and \<open>hook_event_name\<close> are present and are
  strings.
\<close>

definition required_fields :: "jsstring list" where
  "required_fields =
     [js ''session_id'', js ''transcript_path'', js ''cwd'', js ''hook_event_name'']"

definition spec_event_descriptor :: "json \<Rightarrow> bool" where
  "spec_event_descriptor v =
     (case v of
        JObject ps \<Rightarrow> list_all (\<lambda>k. typeof_string (map_of ps k)) required_fields
      | _ \<Rightarrow> False)"

section \<open>Writing a transcript, as the specification words it\<close>

text \<open>
  The other side of the round trip: a transcript written from known assistant turns.
  \<open>quote_chars\<close> is the quoting of \<open>JSON.stringify\<close>, without the quotes around the
  result: a quote, a backslash and the control characters are escaped, a surrogate
  without its partner is written as \<open>\uXXXX\<close>, every other code unit stands for itself.
\<close>

definition hex_digit :: "nat \<Rightarrow> jschar" where
  "hex_digit d = (if d < 10 then 0x30 + d else 0x61 + (d - 10))"

definition unicode_escape :: "jschar \<Rightarrow> jsstring" where
  "unicode_escape c =
     [0x5C, 0x75, hex_digit (c div 4096 mod 16), hex_digit (c div 256 mod 16),
      hex_digit (c div 16 mod 16), hex_digit (c mod 16)]"

definition is_lead :: "jschar \<Rightarrow> bool" where
  "is_lead c = (0xD800 \<le> c \<and> c \<le> 0xDBFF)"

definition is_trail :: "jschar \<Rightarrow> bool" where
  "is_trail c = (0xDC00 \<le> c \<and> c \<le> 0xDFFF)"

definition quote_unit :: "jschar \<Rightarrow> jsstring" where
  "quote_unit c =
     (if c = 0x08 then [0x5C, 0x62]
      else if c = 0x09 then [0x5C, 0x74]
      else if c = 0x0A then [0x5C, 0x6E]
      else if c = 0x0C then [0x5C, 0x66]
      else if c = 0x0D then [0x5C, 0x72]
      else if c = 0x22 then [0x5C, 0x22]
      else if c = 0x5C then [0x5C, 0x5C]
      else if c < 0x20 \<or> is_lead c \<or> is_trail c then unicode_escape c
      else [c])"

fun quote_chars :: "jsstring \<Rightarrow> jsstring" where
  "quote_chars [] = []"
| "quote_chars [c] = quote_unit c"
| "quote_chars (c # d # cs) =
     (if is_lead c \<and> is_trail d then c # d # quote_chars cs
      else quote_unit c @ quote_chars (d # cs))"

text \<open>Lines joined by line feeds.\<close>

fun join_lines :: "jsstring list \<Rightarrow> jsstring" where
  "join_lines [] = []"
| "join_lines [l] = l"
| "join_lines (l # l' # ls) = l @ LF # join_lines (l' # ls)"

text \<open>
  A turn is written as one record
  \<open>{"message":{"role":"assistant","content":[{"type":"text","text":"..."}]}}\<close>. Its text
  stands between the quotes as \<open>JSON.stringify\<close> quotes it, except that a line feed of the
  text is written as a line feed: the text field then holds embedded newlines, and the
  physical lines of the transcript do not align with the records. The transcript ends
  every record with a line feed.
\<close>

definition write_text :: "jsstring \<Rightarrow> jsstring" where
  "write_text t = join_lines (map quote_chars (split_on LF t))"

definition record_open :: jsstring where
  \<open>record_open = js ''{"message":{"role":"assistant","content":[{"type":"text","text":"''\<close>

definition record_close :: jsstring where
  \<open>record_close = js ''"}]}}''\<close>

definition turn_record :: "jsstring \<Rightarrow> jsstring" where
  "turn_record t = record_open @ write_text t @ record_close"

definition write_transcript :: "jsstring list \<Rightarrow> jsstring" where
  "write_transcript turns = concat (map (\<lambda>t. turn_record t @ [LF]) turns)"

text \<open>The value that the record of a turn stands for.\<close>

definition record_value :: "jsstring \<Rightarrow> json" where
  "record_value t =
     JObject [(js ''message'',
       JObject [(js ''role'', JString (js ''assistant'')),
                (js ''content'',
                 JArray [JObject [(js ''type'', JString (js ''text'')),
                                  (js ''text'', JString t)]])])]"

section \<open>Example inputs\<close>

text \<open>Concrete configurations and environments, used to run the definitions.\<close>

definition example_runtime :: runtime where
  "example_runtime =
     \<lparr>generate = (\<lambda>call. Inr (js ''Sir, the work is done.'')),
      segment = (\<lambda>text. Some [text]),
      member_text = (\<lambda>name. js ''function () { [native code] }'')\<rparr>"

definition example_prompts :: "jsstring \<rightharpoonup> jsstring" where
  "example_prompts =
     [js ''terse'' \<mapsto> js ''Be terse'', js ''brief'' \<mapsto> js ''Be brief'',
      js ''normal'' \<mapsto> js ''Be normal'']"

definition example_client :: LLMClient where
  "example_client =
     \<lparr>provider = OllamaProvider (js ''llama2'') (js ''http://localhost:11434/api/generate''),
      prompts = example_prompts,
      baseInstruction = None\<rparr>"

definition system_voice :: voice_config where
  "system_voice =
     \<lparr>voice_provider = Some (js ''system''), voice_id = None, voice_api_key = None,
      voice_cache_threshold = None\<rparr>"

text \<open>A channel that fails on its second call; its state counts the calls.\<close>

definition second_call_fails :: "nat channel" where
  "second_call_fails n c = (if n = 1 then Some (Error (js ''exit code 1'')) else None, Suc n)"

text \<open>A transcript whose only record carries its tag at the start of the text.\<close>

definition tag_first_transcript :: jsstring where
  \<open>tag_first_transcript =
     js ''{"message":{"role":"assistant","content":[{"type":"text","text":"clarvis:[context:development intent:completion project:auth] JWT work is done."}]}}''\<close>

text \<open>A transcript with a line that is not JSON before an assistant record.\<close>

definition malformed_line_transcript :: jsstring where
  \<open>malformed_line_transcript =
     js ''garbage\<newline>{"message":{"role":"assistant","content":[{"type":"text","text":"hi"}]}}''\<close>

text \<open>A channel that always succeeds, a configuration with one context, and a run of the
  whole program over a transcript whose one assistant message has no tag.\<close>

definition counting_channel :: "nat channel" where
  "counting_channel n c = (None, Suc n)"

definition example_llm_config :: llm_config where
  "example_llm_config =
     \<lparr>llm_provider = js ''ollama'', llm_apiKey = None, llm_endpoint = None,
      llm_model = js ''llama2'', llm_base_instruction = None, llm_prompts = example_prompts\<rparr>"

definition example_config :: "jsstring \<Rightarrow> config" where
  "example_config assistant_style =
     \<lparr>cfg_contexts = [js ''assistant'' \<mapsto> \<lparr>ctx_style = assistant_style, ctx_cache = None\<rparr>],
      cfg_llm = example_llm_config,
      cfg_voice = Some system_voice\<rparr>"

definition plain_transcript :: jsstring where
  \<open>plain_transcript =
     js ''{"message":{"role":"assistant","content":[{"type":"text","text":"All tests pass."}]}}''\<close>

definition example_world :: "jsstring \<Rightarrow> nat world" where
  \<open>example_world assistant_style =
     \<lparr>w_CLARVIS_VOICE = None,
      w_stdin = StdinEnd (js ''{"session_id":"s1","transcript_path":"/tmp/t.jsonl","cwd":"/tmp","hook_event_name":"Stop"}''),
      w_loadConfig = Inr (example_config assistant_style),
      w_configure_logger = None,
      w_read_file = (\<lambda>path. if path = js ''/tmp/t.jsonl'' then Inr plain_transcript
                              else Inl (Error (js ''ENOENT''))),
      w_runtime = example_runtime,
      w_channel = counting_channel\<rparr>\<close>

text \<open>
  Three turns of which the second has a line feed in its text; two turns with quotes, a
  backslash and a tab in their texts and no line feed; two turns of which the last has
  an empty text; and a record that is written over two lines, broken between two of its
  members.
\<close>

definition line_feed_turns :: "jsstring list" where
  "line_feed_turns =
     [js ''First answer.'', js ''Line one'' @ [LF] @ js ''line two'', js ''Last answer.'']"

definition one_line_turns :: "jsstring list" where
  \<open>one_line_turns =
     [js ''First answer.'', js ''The "second" answer, with a '' @ [0x5C, 0x09] @ js ''.'']\<close>

definition empty_last_turns :: "jsstring list" where
  "empty_last_turns = [js ''hello'', []]"

definition two_line_record :: jsstring where
  \<open>two_line_record =
     js ''{"message":{"role":"assistant","content":[{"type":"text",\<newline>"text":"Line one"}]}}\<newline>''\<close>

text \<open>
  The run of the whole program over a transcript whose last assistant record has a
  number where the text of its content item should be.
\<close>

definition number_text_transcript :: jsstring where
  \<open>number_text_transcript =
     js ''{"message":{"role":"assistant","content":[{"type":"text","text":5}]}}''\<close>

definition number_text_world :: "nat world" where
  "number_text_world =
     (example_world (js ''terse''))
       \<lparr>w_read_file := (\<lambda>path. Inr number_text_transcript)\<rparr>"

section \<open>Properties of JSON.parse\<close>

text \<open>
  Every parsing function consumes input, the bound that \<open>JSON_parse\<close> starts with is
  never used up, and a larger bound gives the same result.
\<close>

lemma parse_string_chars_shorter:
  "parse_string_chars cs = Some (str, r) \<Longrightarrow> length r < length cs"
proof (induction cs arbitrary: str r rule: parse_string_chars.induct)
  case 1
  then show ?case by simp
next
  case (2 c cs)
  then show ?case
    by (auto split: if_splits list.splits option.splits prod.splits) fastforce+
qed

lemma skip_ws_le: "length (skip_ws s) \<le> length s"
  by (simp add: skip_ws_def length_dropWhile_le)

lemma parse_int_part_shorter:
  "parse_int_part s = Some (ip, r) \<Longrightarrow> length r < length s"
  by (auto simp: parse_int_part_def le_imp_less_Suc length_dropWhile_le split: list.splits if_splits)

lemma parse_frac_le:
  "parse_frac s = Some (fp, r) \<Longrightarrow> length r \<le> length s"
  by (auto simp: parse_frac_def le_SucI length_dropWhile_le split: list.splits if_splits)

lemma parse_exp_le:
  "parse_exp s = Some (ex, r) \<Longrightarrow> length r \<le> length s"
  by (auto simp: parse_exp_def le_SucI length_dropWhile_le Let_def split: list.splits if_splits)

lemma parse_number_shorter:
  "parse_number s = Ok v r \<Longrightarrow> length r < length s"
  unfolding parse_number_def
  by (auto simp: Let_def split: list.splits if_splits option.splits prod.splits
      dest!: parse_int_part_shorter parse_frac_le parse_exp_le)

lemma parse_number_fuel: "parse_number s \<noteq> OutOfFuel"
  unfolding parse_number_def
  by (auto simp: Let_def split: list.splits if_splits option.splits prod.splits)

lemma parse_shorter:
  "parse_value n s = Ok v r \<Longrightarrow> length r < length s"
  "parse_elements n acc s = Ok v r \<Longrightarrow> length r < length s"
  "parse_members n macc s = Ok v r \<Longrightarrow> length r < length s"
proof (induction n s and n acc s and n macc s arbitrary: v r and v r and v r
       rule: parse_value_parse_elements_parse_members.induct)
  case (1 s)
  then show ?case by simp
next
  case (2 n s)
  show ?case
  proof (cases s)
    case Nil
    with "2.prems" show ?thesis by simp
  next
    case (Cons c cs)
    consider (obj) "c = 0x7B" | (arr) "c \<noteq> 0x7B" "c = 0x5B" | (str) "c \<noteq> 0x7B" "c \<noteq> 0x5B" "c = 0x22"
      | (other) "c \<noteq> 0x7B" "c \<noteq> 0x5B" "c \<noteq> 0x22" by blast
    then show ?thesis
    proof cases
      case obj
      show ?thesis
      proof (cases "skip_ws cs")
        case Nil
        with "2.prems" Cons obj show ?thesis by simp
      next
        case (Cons c' r')
        note sk = this
        show ?thesis
        proof (cases "c' = 0x7D")
          case True
          with "2.prems" \<open>s = c # cs\<close> obj sk have "r = r'" by simp
          moreover have "length (skip_ws cs) \<le> length cs" by (rule skip_ws_le)
          ultimately show ?thesis using sk \<open>s = c # cs\<close> by simp
        next
          case False
          with "2.prems" \<open>s = c # cs\<close> obj sk have "parse_members n [] (c' # r') = Ok v r" by simp
          from "2.IH"(1)[OF \<open>s = c # cs\<close> obj sk False this]
          have "length r < length (c' # r')" .
          moreover have "length (skip_ws cs) \<le> length cs" by (rule skip_ws_le)
          ultimately show ?thesis using sk \<open>s = c # cs\<close> by simp
        qed
      qed
    next
      case arr
      show ?thesis
      proof (cases "skip_ws cs")
        case Nil
        with "2.prems" Cons arr show ?thesis by simp
      next
        case (Cons c' r')
        note sk = this
        show ?thesis
        proof (cases "c' = 0x5D")
          case True
          with "2.prems" \<open>s = c # cs\<close> arr sk have "r = r'" by simp
          moreover have "length (skip_ws cs) \<le> length cs" by (rule skip_ws_le)
          ultimately show ?thesis using sk \<open>s = c # cs\<close> by simp
        next
          case False
          with "2.prems" \<open>s = c # cs\<close> arr sk have "parse_elements n [] (c' # r') = Ok v r" by simp
          from "2.IH"(2)[OF \<open>s = c # cs\<close> arr(1) arr(2) sk False this]
          have "length r < length (c' # r')" .
          moreover have "length (skip_ws cs) \<le> length cs" by (rule skip_ws_le)
          ultimately show ?thesis using sk \<open>s = c # cs\<close> by simp
        qed
      qed
    next
      case str
      with "2.prems" Cons show ?thesis
        by (auto split: option.splits dest: parse_string_chars_shorter)
    next
      case other
      with "2.prems" Cons show ?thesis
        by (auto split: if_splits dest: parse_number_shorter simp: js_def)
    qed
  qed
next
  case (3 acc s)
  then show ?case by simp
next
  case (4 n acc s)
  from "4.prems" obtain v1 r1 where pv: "parse_value n s = Ok v1 r1"
    by (auto split: parse_result.splits)
  from "4.IH"(1)[OF pv] have l1: "length r1 < length s" .
  have l2: "length (skip_ws r1) \<le> length r1" by (rule skip_ws_le)
  from "4.prems" pv obtain c r' where sk: "skip_ws r1 = c # r'"
    by (auto split: list.splits)
  show ?case
  proof (cases "c = 0x2C")
    case True
    with "4.prems" pv sk have "parse_elements n (acc @ [v1]) (skip_ws r') = Ok v r" by simp
    from "4.IH"(2)[OF pv sk True this] have "length r < length (skip_ws r')" .
    moreover have "length (skip_ws r') \<le> length r'" by (rule skip_ws_le)
    ultimately show ?thesis using l1 l2 sk by simp
  next
    case False
    with "4.prems" pv sk have "r = r'" by (auto split: if_splits)
    then show ?thesis using l1 l2 sk by simp
  qed
next
  case (5 macc s)
  then show ?case by simp
next
  case (6 n macc s)
  from "6.prems" obtain cs where s: "s = 0x22 # cs"
    by (cases s) (auto split: if_splits)
  from "6.prems" s obtain key r1 where ps: "parse_string_chars cs = Some (key, r1)"
    by (auto split: option.splits)
  from "6.prems" s ps obtain r2 where sk1: "skip_ws r1 = 0x3A # r2"
    by (auto split: list.splits if_splits)
  from "6.prems" s ps sk1 obtain v1 r3 where pv: "parse_value n (skip_ws r2) = Ok v1 r3"
    by (auto split: parse_result.splits)
  from "6.prems" s ps sk1 pv obtain c r4 where sk3: "skip_ws r3 = c # r4"
    by (auto split: list.splits)
  have a: "length r1 < length cs" using ps by (rule parse_string_chars_shorter)
  have b: "length (skip_ws r1) \<le> length r1" "length (skip_ws r2) \<le> length r2"
    "length (skip_ws r3) \<le> length r3" "length (skip_ws r4) \<le> length r4" by (rule skip_ws_le)+
  have c: "length r3 < length (skip_ws r2)"
    using "6.IH"(1)[OF s _ ps refl sk1 _ pv] by simp
  show ?case
  proof (cases "c = 0x2C")
    case True
    with "6.prems" s ps sk1 pv sk3
    have "parse_members n (obj_put key v1 macc) (skip_ws r4) = Ok v r" by simp
    from "6.IH"(2)[OF s _ ps refl sk1 _ pv sk3 True this]
    have "length r < length (skip_ws r4)" by simp
    then show ?thesis using a b c s sk1 sk3 by simp
  next
    case False
    with "6.prems" s ps sk1 pv sk3 have "r = r4" by (auto split: if_splits)
    then show ?thesis using a b c s sk1 sk3 by simp
  qed
qed

lemma parse_fuel_mono:
  "parse_value n s \<noteq> OutOfFuel \<Longrightarrow> n \<le> m \<Longrightarrow> parse_value m s = parse_value n s"
  "parse_elements n acc s \<noteq> OutOfFuel \<Longrightarrow> n \<le> m \<Longrightarrow> parse_elements m acc s = parse_elements n acc s"
  "parse_members n macc s \<noteq> OutOfFuel \<Longrightarrow> n \<le> m \<Longrightarrow> parse_members m macc s = parse_members n macc s"
proof (induction n s and n acc s and n macc s arbitrary: m and m and m
       rule: parse_value_parse_elements_parse_members.induct)
  case (1 s)
  then show ?case by simp
next
  case (2 n s)
  from "2.prems" obtain m' where m: "m = Suc m'" "n \<le> m'" by (cases m) auto
  show ?case
  proof (cases s)
    case Nil
    then show ?thesis using m by simp
  next
    case (Cons c cs)
    consider (obj) "c = 0x7B" | (arr) "c \<noteq> 0x7B" "c = 0x5B" | (other) "c \<noteq> 0x7B" "c \<noteq> 0x5B" by blast
    then show ?thesis
    proof cases
      case obj
      show ?thesis
      proof (cases "skip_ws cs")
        case Nil
        with Cons obj m show ?thesis by simp
      next
        case (Cons c' r')
        note sk = this
        show ?thesis
        proof (cases "c' = 0x7D")
          case True
          with \<open>s = c # cs\<close> obj sk m show ?thesis by simp
        next
          case False
          with "2.prems" \<open>s = c # cs\<close> obj sk have "parse_members n [] (c' # r') \<noteq> OutOfFuel" by simp
          from "2.IH"(1)[OF \<open>s = c # cs\<close> obj sk False this m(2)]
          show ?thesis using \<open>s = c # cs\<close> obj sk m False by simp
        qed
      qed
    next
      case arr
      show ?thesis
      proof (cases "skip_ws cs")
        case Nil
        with Cons arr m show ?thesis by simp
      next
        case (Cons c' r')
        note sk = this
        show ?thesis
        proof (cases "c' = 0x5D")
          case True
          with \<open>s = c # cs\<close> arr sk m show ?thesis by simp
        next
          case False
          with "2.prems" \<open>s = c # cs\<close> arr sk have "parse_elements n [] (c' # r') \<noteq> OutOfFuel" by simp
          from "2.IH"(2)[OF \<open>s = c # cs\<close> arr(1) arr(2) sk False this m(2)]
          show ?thesis using \<open>s = c # cs\<close> arr sk m False by simp
        qed
      qed
    next
      case other
      with Cons m show ?thesis by simp
    qed
  qed
next
  case (3 acc s)
  then show ?case by simp
next
  case (4 n acc s)
  from "4.prems" obtain m' where m: "m = Suc m'" "n \<le> m'" by (cases m) auto
  from "4.prems" have nf: "parse_value n s \<noteq> OutOfFuel" by (auto split: parse_result.splits)
  from "4.IH"(1)[OF nf m(2)] have eq: "parse_value m' s = parse_value n s" .
  show ?case
  proof (cases "parse_value n s")
    case (Ok v1 r1)
    show ?thesis
    proof (cases "skip_ws r1")
      case Nil
      with Ok eq m show ?thesis by simp
    next
      case (Cons c r')
      show ?thesis
      proof (cases "c = 0x2C")
        case True
        with "4.prems" Ok Cons have "parse_elements n (acc @ [v1]) (skip_ws r') \<noteq> OutOfFuel" by simp
        from "4.IH"(2)[OF Ok Cons True this m(2)]
        show ?thesis using Ok Cons True eq m by simp
      next
        case False
        with Ok Cons eq m show ?thesis by simp
      qed
    qed
  next
    case SyntaxErr
    with eq m show ?thesis by simp
  next
    case OutOfFuel
    with nf show ?thesis by simp
  qed
next
  case (5 macc s)
  then show ?case by simp
next
  case (6 n macc s)
  from "6.prems" obtain m' where m: "m = Suc m'" "n \<le> m'" by (cases m) auto
  show ?case
  proof (cases s)
    case Nil
    with m show ?thesis by simp
  next
    case (Cons q cs)
    note s = this
    show ?thesis
    proof (cases "q = 0x22")
      case False
      with s m show ?thesis by simp
    next
      case q: True
      show ?thesis
      proof (cases "parse_string_chars cs")
        case None
        with s q m show ?thesis by simp
      next
        case (Some kr)
        obtain key r1 where kr: "kr = (key, r1)" by (cases kr)
        show ?thesis
        proof (cases "skip_ws r1")
          case Nil
          with s q Some kr m show ?thesis by simp
        next
          case (Cons colon r2)
          note sk1 = this
          show ?thesis
          proof (cases "colon = 0x3A")
            case False
            with s q Some kr sk1 m show ?thesis by simp
          next
            case colon: True
            from "6.prems" s q Some kr sk1 colon
            have nf: "parse_value n (skip_ws r2) \<noteq> OutOfFuel" by (auto split: parse_result.splits)
            have eq: "parse_value m' (skip_ws r2) = parse_value n (skip_ws r2)"
              using "6.IH"(1)[OF s _ Some kr[symmetric] sk1 _ nf m(2)] q colon by simp
            show ?thesis
            proof (cases "parse_value n (skip_ws r2)")
              case (Ok v1 r3)
              show ?thesis
              proof (cases "skip_ws r3")
                case Nil
                with s q Some kr sk1 colon Ok eq m show ?thesis by simp
              next
                case (Cons c r4)
                show ?thesis
                proof (cases "c = 0x2C")
                  case True
                  with "6.prems" s q Some kr sk1 colon Ok Cons
                  have "parse_members n (obj_put key v1 macc) (skip_ws r4) \<noteq> OutOfFuel" by simp
                  from "6.IH"(2)[OF s _ Some kr[symmetric] sk1 _ Ok Cons True this m(2)] q colon
                  show ?thesis using s Some kr sk1 Ok Cons True eq m by simp
                next
                  case False
                  with s q Some kr sk1 colon Ok Cons eq m show ?thesis by simp
                qed
              qed
            next
              case SyntaxErr
              with s q Some kr sk1 colon eq m show ?thesis by simp
            next
              case OutOfFuel
              with nf show ?thesis by simp
            qed
          qed
        qed
      qed
    qed
  qed
qed

lemma parse_fuel_enough:
  "2 * length s < n \<Longrightarrow> parse_value n s \<noteq> OutOfFuel"
  "2 * length s + 1 < n \<Longrightarrow> parse_elements n acc s \<noteq> OutOfFuel"
  "2 * length s + 1 < n \<Longrightarrow> parse_members n macc s \<noteq> OutOfFuel"
proof (induction n s and n acc s and n macc s
       rule: parse_value_parse_elements_parse_members.induct)
  case (1 s)
  then show ?case by simp
next
  case (2 n s)
  show ?case
  proof (cases s)
    case Nil
    then show ?thesis by simp
  next
    case (Cons c cs)
    have le: "length (skip_ws cs) \<le> length cs" by (rule skip_ws_le)
    consider (obj) "c = 0x7B" | (arr) "c \<noteq> 0x7B" "c = 0x5B" | (other) "c \<noteq> 0x7B" "c \<noteq> 0x5B" by blast
    then show ?thesis
    proof cases
      case obj
      show ?thesis
      proof (cases "skip_ws cs")
        case Nil
        with Cons obj show ?thesis by simp
      next
        case (Cons c' r')
        note sk = this
        show ?thesis
        proof (cases "c' = 0x7D")
          case True
          with \<open>s = c # cs\<close> obj sk show ?thesis by simp
        next
          case False
          have "2 * length (c' # r') + 1 < n" using "2.prems" le sk \<open>s = c # cs\<close> by simp
          from "2.IH"(1)[OF \<open>s = c # cs\<close> obj sk False this]
          show ?thesis using \<open>s = c # cs\<close> obj sk False by simp
        qed
      qed
    next
      case arr
      show ?thesis
      proof (cases "skip_ws cs")
        case Nil
        with Cons arr show ?thesis by simp
      next
        case (Cons c' r')
        note sk = this
        show ?thesis
        proof (cases "c' = 0x5D")
          case True
          with \<open>s = c # cs\<close> arr sk show ?thesis by simp
        next
          case False
          have "2 * length (c' # r') + 1 < n" using "2.prems" le sk \<open>s = c # cs\<close> by simp
          from "2.IH"(2)[OF \<open>s = c # cs\<close> arr(1) arr(2) sk False this]
          show ?thesis using \<open>s = c # cs\<close> arr sk False by simp
        qed
      qed
    next
      case other
      with Cons show ?thesis by (auto split: option.splits simp: parse_number_fuel)
    qed
  qed
next
  case (3 acc s)
  then show ?case by simp
next
  case (4 n acc s)
  have nf: "parse_value n s \<noteq> OutOfFuel" using "4.IH"(1) "4.prems" by simp
  show ?case
  proof (cases "parse_value n s")
    case (Ok v1 r1)
    have l1: "length r1 < length s" using Ok by (rule parse_shorter)
    show ?thesis
    proof (cases "skip_ws r1")
      case Nil
      with Ok show ?thesis by simp
    next
      case (Cons c r')
      have l2: "length (skip_ws r1) \<le> length r1" "length (skip_ws r') \<le> length r'" by (rule skip_ws_le)+
      show ?thesis
      proof (cases "c = 0x2C")
        case True
        have "2 * length (skip_ws r') + 1 < n" using "4.prems" l1 l2 Cons by simp
        from "4.IH"(2)[OF Ok Cons True this]
        show ?thesis using Ok Cons True by simp
      next
        case False
        with Ok Cons show ?thesis by simp
      qed
    qed
  next
    case SyntaxErr
    then show ?thesis by simp
  next
    case OutOfFuel
    with nf show ?thesis by simp
  qed
next
  case (5 macc s)
  then show ?case by simp
next
  case (6 n macc s)
  show ?case
  proof (cases s)
    case Nil
    then show ?thesis by simp
  next
    case (Cons q cs)
    note s = this
    show ?thesis
    proof (cases "q = 0x22")
      case False
      with s show ?thesis by simp
    next
      case q: True
      show ?thesis
      proof (cases "parse_string_chars cs")
        case None
        with s q show ?thesis by simp
      next
        case (Some kr)
        obtain key r1 where kr: "kr = (key, r1)" by (cases kr)
        have a: "length r1 < length cs" using Some kr parse_string_chars_shorter by simp
        show ?thesis
        proof (cases "skip_ws r1")
          case Nil
          with s q Some kr show ?thesis by simp
        next
          case (Cons colon r2)
          note sk1 = this
          have b: "length (skip_ws r1) \<le> length r1" "length (skip_ws r2) \<le> length r2" by (rule skip_ws_le)+
          show ?thesis
          proof (cases "colon = 0x3A")
            case False
            with s q Some kr sk1 show ?thesis by simp
          next
            case colon: True
            have "2 * length (skip_ws r2) < n" using "6.prems" s a b sk1 by simp
            then have nf: "parse_value n (skip_ws r2) \<noteq> OutOfFuel"
              using "6.IH"(1)[OF s _ Some kr[symmetric] sk1] q colon by simp
            show ?thesis
            proof (cases "parse_value n (skip_ws r2)")
              case (Ok v1 r3)
              have c: "length r3 < length (skip_ws r2)" using Ok by (rule parse_shorter)
              show ?thesis
              proof (cases "skip_ws r3")
                case Nil
                with s q Some kr sk1 colon Ok show ?thesis by simp
              next
                case (Cons c r4)
                have d: "length (skip_ws r3) \<le> length r3" "length (skip_ws r4) \<le> length r4" by (rule skip_ws_le)+
                show ?thesis
                proof (cases "c = 0x2C")
                  case True
                  have "2 * length (skip_ws r4) + 1 < n" using "6.prems" s a b c d sk1 Cons by simp
                  with "6.IH"(2)[OF s _ Some kr[symmetric] sk1 _ Ok Cons True] q colon
                  show ?thesis using s Some kr sk1 Ok Cons True by simp
                next
                  case False
                  with s q Some kr sk1 colon Ok Cons show ?thesis by simp
                qed
              qed
            next
              case SyntaxErr
              with s q Some kr sk1 colon show ?thesis by simp
            next
              case OutOfFuel
              with nf show ?thesis by simp
            qed
          qed
        qed
      qed
    qed
  qed
qed

lemma JSON_parse_fuel:
  "parse_value (2 * length s + 2) (skip_ws s) \<noteq> OutOfFuel"
proof -
  have "length (skip_ws s) \<le> length s" by (rule skip_ws_le)
  then have "2 * length (skip_ws s) < 2 * length s + 2" by simp
  then show ?thesis by (rule parse_fuel_enough)
qed

lemma JSON_parse_empty: "JSON_parse [] = Inl SyntaxError"
  by (simp add: JSON_parse_def skip_ws_def numeral_eq_Suc)

section \<open>Properties of the event reader\<close>

lemma parse_event_object:
  "JSON_parse input = Inr v \<Longrightarrow>
   parse_event input = (if v = JNull then Inl TypeError
                        else if spec_event_descriptor v then Inr (Some v) else Inr None)"
  by (cases v)
     (auto simp: parse_event_def spec_event_descriptor_def required_fields_def JSON_parse_empty)

text \<open>
  C8. \<open>parseHookInput\<close> returns the parsed value exactly when the input stream ended
  with a text that, trimmed, parses as JSON to a well-formed event descriptor. In every
  other case (a timeout, a stream error, empty input, text that is not JSON, a value
  that is not an object, an object that lacks one of the four string fields) it returns
  \<open>null\<close>; no throw leaves it.
\<close>

theorem parseHookInput_total:
  "parseHookInput stdin =
     (case stdin of
        StdinEnd data \<Rightarrow>
          (case JSON_parse (trim data) of
             Inr v \<Rightarrow> if spec_event_descriptor v then Some v else None
           | Inl e \<Rightarrow> None)
      | StdinError \<Rightarrow> None
      | StdinTimeout \<Rightarrow> None)"
proof (cases stdin)
  case (StdinEnd data)
  show ?thesis
  proof (cases "JSON_parse (trim data)")
    case (Inl e)
    then show ?thesis using StdinEnd
      by (simp add: parseHookInput_def parse_event_def)
  next
    case (Inr v)
    from parse_event_object[OF Inr] show ?thesis using StdinEnd Inr
      by (auto simp: parseHookInput_def spec_event_descriptor_def)
  qed
qed (simp_all add: parseHookInput_def)

lemma parseHookInput_examples:
  \<open>parseHookInput (StdinEnd []) = None\<close>
  \<open>parseHookInput (StdinEnd (js ''not json at all'')) = None\<close>
  \<open>parseHookInput (StdinEnd (js ''null'')) = None\<close>
  \<open>parseHookInput (StdinEnd (js ''[1, 2]'')) = None\<close>
  \<open>parseHookInput (StdinEnd (js ''{"session_id": 123}'')) = None\<close>
  \<open>parseHookInput (StdinEnd
     (js ''{"session_id":"s1","transcript_path":"/tmp/t.jsonl","cwd":"/tmp"}'')) = None\<close>
  \<open>parseHookInput (StdinEnd
     (js ''{"session_id":"s1","transcript_path":"/tmp/t.jsonl","cwd":"/tmp","hook_event_name":"Stop"}''))
   = Some (JObject [(js ''session_id'', JString (js ''s1'')),
                    (js ''transcript_path'', JString (js ''/tmp/t.jsonl'')),
                    (js ''cwd'', JString (js ''/tmp'')),
                    (js ''hook_event_name'', JString (js ''Stop''))])\<close>
  by code_simp+

section \<open>Properties of the tag extractor\<close>

text \<open>
  C3. The extractor looks for each key anywhere inside the block, so a block outside
  the grammar is accepted when it contains the two required keys with valid values: with
  an extra key, with a comma for the delimiter, and with a non-ASCII character in the
  project, whose value is then cut short.
\<close>

theorem extractMetadata_accepts_outside_grammar:
  \<open>extractMetadata (js ''clarvis:[context:development intent:completion extra:field]'')
     = Some \<lparr>meta_context = js ''development'', meta_intent = js ''completion'',
              meta_project = None\<rparr>
   \<and> extractMetadata (js ''clarvis:[context:development,intent:completion]'')
     = Some \<lparr>meta_context = js ''development'', meta_intent = js ''completion'',
              meta_project = None\<rparr>
   \<and> extractMetadata
       (js ''clarvis:[context:development intent:completion project:t'' @ [0xE9] @ js ''st]'')
     = Some \<lparr>meta_context = js ''development'', meta_intent = js ''completion'',
              meta_project = Some (js ''t'')\<rparr>\<close>
  by code_simp

lemma extractMetadata_examples:
  \<open>extractMetadata (js ''clarvis:[context:development intent:completion project:auth]'')
     = Some \<lparr>meta_context = js ''development'', meta_intent = js ''completion'',
              meta_project = Some (js ''auth'')\<rparr>\<close>
  \<open>extractMetadata (js ''Done. clarvis:[intent:status context:writing] Bye.'')
     = Some \<lparr>meta_context = js ''writing'', meta_intent = js ''status'',
              meta_project = None\<rparr>\<close>
  \<open>extractMetadata (js ''clarvis:{context:development intent:completion}'') = None\<close>
  \<open>extractMetadata (js ''clarvis:[context:development]'') = None\<close>
  \<open>extractMetadata (js ''clarvis:[context:dev intent:completion]'') = None\<close>
  \<open>extractMetadata (js ''no tag here'') = None\<close>
  by code_simp+

section \<open>Properties of the transcript resolver\<close>

text \<open>
  C4. The tag is removed only where it ends the text after a line feed. For a message
  that begins with its tag, the tag is found and the text is returned with the tag in it.
\<close>

theorem tag_first_not_stripped:
  \<open>extractLastAssistantMessage (\<lambda>path. Inr tag_first_transcript) (js ''/tmp/t.jsonl'')
   = \<lparr>msg_text =
        js ''clarvis:[context:development intent:completion project:auth] JWT work is done.'',
      msg_metadata =
        Some \<lparr>meta_context = js ''development'', meta_intent = js ''completion'',
               meta_project = Some (js ''auth'')\<rparr>\<rparr>\<close>
  by code_simp

text \<open>
  C6. A line that never parses stays at the head of the current entry, so no later
  line parses either: the assistant record after it is not found.
\<close>

theorem malformed_line_hides_later_record:
  \<open>jsonlEntries malformed_line_transcript = []
   \<and> extractLastAssistantMessage (\<lambda>path. Inr malformed_line_transcript) (js ''/tmp/t.jsonl'')
     = \<lparr>msg_text = [], msg_metadata = None\<rparr>\<close>
  by code_simp

lemma wrong_shape_record_skipped:
  \<open>extractLastAssistantMessage
     (\<lambda>path. Inr (js ''{"message":{"role":"assistant","content":[{"type":"text","text":"hi"}]}}\<newline>{"x":1}\<newline>null\<newline>{"message":{"role":"user","content":"go"}}''))
     (js ''/tmp/t.jsonl'')
   = \<lparr>msg_text = js ''hi'', msg_metadata = None\<rparr>\<close>
  by code_simp

text \<open>
  The round trip, for texts without a line feed. Quoting a text and reading it back
  gives the text; the record of a turn parses to its value; so the loop rebuilds one
  entry for each turn.
\<close>

lemma hex_value_hex_digit: "d < 16 \<Longrightarrow> hex_value (hex_digit d) = Some d"
  by (auto simp: hex_value_def hex_digit_def)

lemma hex4_recombine:
  assumes "c < 65536"
  shows "hex4 (c div 4096 mod 16) (c div 256 mod 16) (c div 16 mod 16) (c mod 16) = c"
proof -
  have d2: "c div 256 = c div 16 div 16" and d3: "c div 4096 = c div 16 div 16 div 16"
    by (simp_all add: div_mult2_eq)
  have "c div 4096 < 16" using assms by simp
  then have m3: "c div 4096 mod 16 = c div 4096" by simp
  have e1: "c = c div 16 * 16 + c mod 16" by simp
  have e2: "c div 16 = c div 16 div 16 * 16 + c div 16 mod 16" by simp
  have e3: "c div 16 div 16 = c div 16 div 16 div 16 * 16 + c div 16 div 16 mod 16" by simp
  have "((c div 16 div 16 div 16 * 16 + c div 16 div 16 mod 16) * 16 + c div 16 mod 16) * 16
        + c mod 16 = c"
    using e1 e2 e3 by presburger
  then show ?thesis unfolding hex4_def m3 unfolding d2 d3 .
qed

lemma parse_unicode_escape:
  "c < 65536 \<Longrightarrow>
   parse_string_chars (unicode_escape c @ s)
   = (case parse_string_chars s of None \<Rightarrow> None | Some (str, rest) \<Rightarrow> Some (c # str, rest))"
  using hex4_recombine[of c]
  by (simp add: unicode_escape_def hex_value_hex_digit split: option.splits)

lemma parse_raw_unit:
  "c \<noteq> 0x22 \<Longrightarrow> c \<noteq> 0x5C \<Longrightarrow> \<not> c < 0x20 \<Longrightarrow>
   parse_string_chars (c # s)
   = (case parse_string_chars s of None \<Rightarrow> None | Some (str, rest) \<Rightarrow> Some (c # str, rest))"
  by simp

lemma parse_quote_unit:
  "parse_string_chars (quote_unit c @ s)
   = (case parse_string_chars s of None \<Rightarrow> None | Some (str, rest) \<Rightarrow> Some (c # str, rest))"
proof -
  consider (esc) "c \<in> {0x08, 0x09, 0x0A, 0x0C, 0x0D, 0x22, 0x5C}"
    | (uni) "c \<notin> {0x08, 0x09, 0x0A, 0x0C, 0x0D, 0x22, 0x5C}" "c < 0x20 \<or> is_lead c \<or> is_trail c"
    | (raw) "c \<notin> {0x08, 0x09, 0x0A, 0x0C, 0x0D, 0x22, 0x5C}" "\<not> (c < 0x20 \<or> is_lead c \<or> is_trail c)"
    by blast
  then show ?thesis
  proof cases
    case esc
    then show ?thesis
      by (auto simp: quote_unit_def escape_value_def split: option.splits)
  next
    case uni
    then have "c < 65536" by (auto simp: is_lead_def is_trail_def)
    then have "parse_string_chars (unicode_escape c @ s)
      = (case parse_string_chars s of None \<Rightarrow> None | Some (str, rest) \<Rightarrow> Some (c # str, rest))"
      by (rule parse_unicode_escape)
    moreover have "quote_unit c = unicode_escape c" using uni by (simp add: quote_unit_def)
    ultimately show ?thesis by simp
  next
    case raw
    then have "quote_unit c = [c]" by (simp add: quote_unit_def)
    moreover have "c \<noteq> 0x22" "c \<noteq> 0x5C" "\<not> c < 0x20" using raw by auto
    ultimately show ?thesis using parse_raw_unit[of c s] by simp
  qed
qed

lemma parse_quote_chars:
  "parse_string_chars (quote_chars t @ 0x22 # r) = Some (t, r)"
proof (induction t rule: quote_chars.induct)
  case 1
  show ?case by simp
next
  case (2 c)
  have "parse_string_chars (0x22 # r) = Some ([], r)" by simp
  then show ?case using parse_quote_unit[of c "0x22 # r"] by simp
next
  case (3 c d cs)
  show ?case
  proof (cases "is_lead c \<and> is_trail d")
    case True
    then have c: "c \<noteq> 0x22" "c \<noteq> 0x5C" "\<not> c < 0x20" and d: "d \<noteq> 0x22" "d \<noteq> 0x5C" "\<not> d < 0x20"
      by (auto simp: is_lead_def is_trail_def)
    have q: "quote_chars (c # d # cs) = c # d # quote_chars cs" using True by simp
    have "parse_string_chars (quote_chars cs @ 0x22 # r) = Some (cs, r)" using 3(1) True by simp
    then show ?thesis
      unfolding q using parse_raw_unit[OF c] parse_raw_unit[OF d] by simp
  next
    case False
    then have q: "quote_chars (c # d # cs) = quote_unit c @ quote_chars (d # cs)" by auto
    have "parse_string_chars (quote_chars (d # cs) @ 0x22 # r) = Some (d # cs, r)"
      using 3(2) False by simp
    then show ?thesis unfolding q using parse_quote_unit[of c "quote_chars (d # cs) @ 0x22 # r"]
      by simp
  qed
qed

lemma hex_digit_no_control: "0x20 \<le> hex_digit d"
  by (simp add: hex_digit_def)

lemma unicode_escape_no_control: "x \<in> set (unicode_escape c) \<Longrightarrow> 0x20 \<le> x"
  using hex_digit_no_control by (auto simp: unicode_escape_def)

lemma quote_unit_no_control: "x \<in> set (quote_unit c) \<Longrightarrow> 0x20 \<le> x"
proof (cases "quote_unit c = unicode_escape c")
  case True
  then show "x \<in> set (quote_unit c) \<Longrightarrow> 0x20 \<le> x"
    using unicode_escape_no_control by simp
next
  case False
  then show "x \<in> set (quote_unit c) \<Longrightarrow> 0x20 \<le> x"
    by (auto simp: quote_unit_def split: if_splits)
qed

lemma quote_chars_no_control: "x \<in> set (quote_chars t) \<Longrightarrow> 0x20 \<le> x"
proof (induction t rule: quote_chars.induct)
  case (3 c d cs)
  then show ?case
    by (auto simp: is_lead_def is_trail_def dest: quote_unit_no_control split: if_splits)
qed (auto dest: quote_unit_no_control)

lemma parse_record:
  "parse_value (Suc (Suc (Suc (Suc (Suc (Suc (Suc (Suc (Suc (Suc (Suc (Suc n))))))))))))
     (record_open @ quote_chars t @ record_close @ r) = Ok (record_value t) r"
  by (simp add: record_open_def record_close_def record_value_def js_def
      skip_ws_def isJsonWhiteSpace_def parse_quote_chars)

lemma concat_lines_join:
  "ls \<noteq> [] \<Longrightarrow> concat (map (\<lambda>line. line @ [LF]) ls) = join_lines ls @ [LF]"
  by (induction ls rule: join_lines.induct) auto

lemma split_on_no_delim: "d \<notin> set l \<Longrightarrow> split_on d l = [l]"
  by (induction l) auto

lemma split_on_append: "d \<notin> set l \<Longrightarrow> split_on d (l @ d # s) = l # split_on d s"
  by (induction l) auto

lemma split_on_join_lines:
  "ls \<noteq> [] \<Longrightarrow> \<forall>l \<in> set ls. LF \<notin> set l \<Longrightarrow> split_on LF (join_lines ls) = ls"
  by (induction ls rule: join_lines.induct) (auto simp: split_on_no_delim split_on_append)

lemma trim_line_feed:
  assumes "s \<noteq> []" "\<not> isWhiteSpace (hd s)" "\<not> isWhiteSpace (last s)"
  shows "trim (s @ [LF]) = s"
proof -
  have a: "dropWhile isWhiteSpace (s @ [LF]) = s @ [LF]"
    using assms by (cases s) auto
  have "isWhiteSpace LF" by (simp add: isWhiteSpace_def LF_def)
  moreover have "dropWhile isWhiteSpace (rev s) = rev s"
    using assms by (cases "rev s") (auto simp: last_rev[symmetric] hd_rev)
  ultimately show ?thesis by (simp add: trim_def a)
qed

lemma write_text_one_line: "LF \<notin> set t \<Longrightarrow> write_text t = quote_chars t"
  by (simp add: write_text_def split_on_no_delim)

lemma record_open_length: "length record_open = 65"
  by (simp add: record_open_def js_def)

lemma skip_ws_record_open: "skip_ws (record_open @ s) = record_open @ s"
  by (simp add: record_open_def js_def skip_ws_def isJsonWhiteSpace_def)

lemma JSON_parse_turn_record:
  assumes "LF \<notin> set t"
  shows "JSON_parse (turn_record t) = Inr (record_value t)"
proof -
  define s where "s = turn_record t"
  have "65 \<le> length s"
    by (simp add: s_def turn_record_def record_open_length)
  then have "2 * length s + 2
      = Suc (Suc (Suc (Suc (Suc (Suc (Suc (Suc (Suc (Suc (Suc (Suc (2 * length s - 10))))))))))))"
    by linarith
  then obtain n where n: "2 * length s + 2
      = Suc (Suc (Suc (Suc (Suc (Suc (Suc (Suc (Suc (Suc (Suc (Suc n)))))))))))"
    by blast
  have s: "s = record_open @ quote_chars t @ record_close @ []"
    using assms by (simp add: s_def turn_record_def write_text_one_line)
  have "skip_ws s = s" unfolding s by (rule skip_ws_record_open)
  then have "parse_value (2 * length s + 2) (skip_ws s) = Ok (record_value t) []"
    unfolding n using parse_record[of n t "[]"] s by (simp only:)
  then show ?thesis
    by (simp add: JSON_parse_def s_def skip_ws_def del: parse_value.simps)
qed

lemma turn_record_no_LF:
  assumes "LF \<notin> set t"
  shows "LF \<notin> set (turn_record t)"
proof -
  have "LF \<notin> set (quote_chars t)"
    using quote_chars_no_control[of LF t] by (auto simp: LF_def)
  then show ?thesis
    using assms
    by (simp add: turn_record_def write_text_one_line record_open_def record_close_def
        js_def LF_def)
qed

lemma reconstruct_turns:
  "\<forall>t \<in> set turns. LF \<notin> set t
   \<Longrightarrow> reconstruct [] (map turn_record turns) = map turn_record turns"
  by (induction turns) (simp_all add: JSON_parse_turn_record)

lemma process_entry_turn_record:
  "LF \<notin> set t
   \<Longrightarrow> process_entry (turn_record t)
       = (if t = [] then Inr None
          else Inr (Some \<lparr>msg_text = (case extractMetadata t of
                                        None \<Rightarrow> t
                                      | Some m \<Rightarrow> strip_metadata t),
                          msg_metadata = extractMetadata t\<rparr>))"
  by (simp add: process_entry_def entry_text_def JSON_parse_turn_record record_value_def js_def
      split: option.splits)

lemma rev_lastEntries:
  assumes "es \<noteq> []"
  shows "\<exists>rest. rev (lastEntries es) = last es # rest"
proof -
  have "length es - 20 < length es" using assms by (cases es) auto
  then have ne: "lastEntries es \<noteq> []" by (simp add: lastEntries_def)
  have "last (lastEntries es) = last es"
    using \<open>length es - 20 < length es\<close> by (simp add: lastEntries_def last_drop)
  then have "rev (lastEntries es) = last es # rev (butlast (lastEntries es))"
    using ne by (metis append_butlast_last_id rev_eq_Cons_iff rev_rev_ident)
  then show ?thesis by blast
qed

lemma hd_join_lines: "l \<noteq> [] \<Longrightarrow> hd (join_lines (l # ls)) = hd l"
  by (cases ls) auto

lemma join_lines_nonempty: "l \<noteq> [] \<Longrightarrow> join_lines (l # ls) \<noteq> []"
  by (cases ls) auto

lemma join_lines_last_nonempty: "ls \<noteq> [] \<Longrightarrow> last ls \<noteq> [] \<Longrightarrow> join_lines ls \<noteq> []"
  by (induction ls rule: join_lines.induct) auto

lemma last_join_lines: "ls \<noteq> [] \<Longrightarrow> last ls \<noteq> [] \<Longrightarrow> last (join_lines ls) = last (last ls)"
proof (induction ls rule: join_lines.induct)
  case (3 l l' ls)
  then have "join_lines (l' # ls) \<noteq> []" by (intro join_lines_last_nonempty) auto
  with 3 show ?case by simp
qed auto

lemma turn_record_first: "turn_record t \<noteq> [] \<and> hd (turn_record t) = 0x7B"
  by (simp add: turn_record_def record_open_def js_def)

lemma turn_record_last: "last (turn_record t) = 0x7D"
  by (simp add: turn_record_def record_close_def js_def)

lemma transcript_lines:
  assumes "turns \<noteq> []" and "\<forall>t \<in> set turns. LF \<notin> set t"
  shows "split_on LF (trim (write_transcript turns)) = map turn_record turns"
    and "trim (write_transcript turns) \<noteq> []"
proof -
  define ls where "ls = map turn_record turns"
  obtain t rest where t: "turns = t # rest" using assms(1) by (cases turns) auto
  have ls: "ls = turn_record t # map turn_record rest" by (simp add: ls_def t)
  then have ne: "ls \<noteq> []" by simp
  have hd: "hd (join_lines ls) = 0x7B"
    unfolding ls using turn_record_first[of t] by (simp add: hd_join_lines)
  have jne: "join_lines ls \<noteq> []"
    unfolding ls using turn_record_first[of t] by (simp add: join_lines_nonempty)
  have "last ls = turn_record (last turns)"
    unfolding ls_def using assms(1) by (simp add: last_map)
  then have "last ls \<noteq> []" "last (last ls) = 0x7D"
    using turn_record_first[of "last turns"] turn_record_last[of "last turns"] by auto
  then have last: "last (join_lines ls) = 0x7D" using ne by (simp add: last_join_lines)
  have "write_transcript turns = concat (map (\<lambda>line. line @ [LF]) ls)"
    by (simp add: write_transcript_def ls_def comp_def)
  then have w: "write_transcript turns = join_lines ls @ [LF]"
    using ne by (simp add: concat_lines_join)
  have tr: "trim (write_transcript turns) = join_lines ls"
    unfolding w using jne hd last by (intro trim_line_feed) (simp_all add: isWhiteSpace_def)
  have "\<forall>l \<in> set ls. LF \<notin> set l" unfolding ls_def using assms(2) turn_record_no_LF by auto
  then show "split_on LF (trim (write_transcript turns)) = map turn_record turns"
    unfolding tr ls_def[symmetric] using ne by (simp add: split_on_join_lines)
  show "trim (write_transcript turns) \<noteq> []" unfolding tr by (rule jne)
qed

text \<open>
  For a transcript written from one or more turns whose texts hold no line feed and of
  which the last has a text that is not empty, the entries that are rebuilt are the
  records of the turns, one for each turn, and the resolver returns the text of the
  last turn, as it is when no tag is found in it, and after the removal of a tag block
  that ends it when one is found.
\<close>

lemma round_trip_without_line_feeds:
  assumes "turns \<noteq> []"
    and "last turns \<noteq> []"
    and "\<forall>t \<in> set turns. LF \<notin> set t"
    and "read_file path = Inr (write_transcript turns)"
  shows "jsonlEntries (write_transcript turns) = map turn_record turns
       \<and> extractLastAssistantMessage read_file path
         = \<lparr>msg_text = (case extractMetadata (last turns) of
                          None \<Rightarrow> last turns
                        | Some m \<Rightarrow> strip_metadata (last turns)),
            msg_metadata = extractMetadata (last turns)\<rparr>"
proof -
  have entries: "jsonlEntries (write_transcript turns) = map turn_record turns"
    using transcript_lines(1)[OF assms(1) assms(3)] assms(3)
    by (simp add: jsonlEntries_def reconstruct_turns)
  have "map turn_record turns \<noteq> []" using assms(1) by simp
  from rev_lastEntries[OF this] obtain rest where
    r: "rev (lastEntries (map turn_record turns)) = turn_record (last turns) # rest"
    using assms(1) by (auto simp: last_map)
  have l: "LF \<notin> set (last turns)" using assms(1) assms(3) by simp
  have "extractLastAssistantMessage read_file path
        = scan_entries (rev (lastEntries (map turn_record turns)))"
    using assms(4) transcript_lines(2)[OF assms(1) assms(3)] entries
    by (simp add: extractLastAssistantMessage_def)
  also have "\<dots> = \<lparr>msg_text = (case extractMetadata (last turns) of
                          None \<Rightarrow> last turns
                        | Some m \<Rightarrow> strip_metadata (last turns)),
            msg_metadata = extractMetadata (last turns)\<rparr>"
    unfolding r using assms(2) l by (simp add: process_entry_turn_record)
  finally show ?thesis using entries by simp
qed

lemma round_trip_one_line_turns:
  \<open>jsonlEntries (write_transcript one_line_turns) = map turn_record one_line_turns
   \<and> extractLastAssistantMessage (\<lambda>path. Inr (write_transcript one_line_turns))
       (js ''/tmp/t.jsonl'')
     = \<lparr>msg_text = js ''The "second" answer, with a '' @ [0x5C, 0x09] @ js ''.'',
        msg_metadata = None\<rparr>\<close>
  by code_simp

text \<open>
  The loop does join two lines where the line feed stands between two members of a
  record, where JSON allows white space.
\<close>

lemma two_line_record_rebuilt:
  \<open>length (jsonlEntries two_line_record) = 1
   \<and> extractLastAssistantMessage (\<lambda>path. Inr two_line_record) (js ''/tmp/t.jsonl'')
     = \<lparr>msg_text = js ''Line one'', msg_metadata = None\<rparr>\<close>
  by code_simp

text \<open>
  C5. The round trip fails where a text holds a line feed. Three turns are written, the
  second with the text \<open>Line one\<close>, a line feed, \<open>line two\<close>: the transcript has four
  physical lines. The first line is rebuilt as the record of the first turn. The second
  line does not parse, the loop adds the third line to it after a line feed, and what it
  has then is no JSON text either, since JSON allows no line feed inside a string; so the
  loop goes on adding lines to the end of the transcript and closes no further entry.
  One entry is rebuilt for three turns, and the resolver returns the text of the first
  turn, not of the last.
\<close>

theorem line_feed_in_text_loses_records:
  \<open>write_transcript line_feed_turns
     = js ''{"message":{"role":"assistant","content":[{"type":"text","text":"First answer."}]}}\<newline>{"message":{"role":"assistant","content":[{"type":"text","text":"Line one\<newline>line two"}]}}\<newline>{"message":{"role":"assistant","content":[{"type":"text","text":"Last answer."}]}}\<newline>''
   \<and> jsonlEntries (write_transcript line_feed_turns) = [turn_record (js ''First answer.'')]
   \<and> extractLastAssistantMessage (\<lambda>path. Inr (write_transcript line_feed_turns))
       (js ''/tmp/t.jsonl'')
     = \<lparr>msg_text = js ''First answer.'', msg_metadata = None\<rparr>\<close>
  by code_simp

text \<open>
  A content item with an empty text is passed over by the test \<open>item.text\<close>: when the
  last turn has an empty text, the resolver returns the text of the turn before.
\<close>

lemma empty_last_turn_passed_over:
  "extractLastAssistantMessage (\<lambda>path. Inr (write_transcript empty_last_turns))
     (js ''/tmp/t.jsonl'')
   = \<lparr>msg_text = js ''hello'', msg_metadata = None\<rparr>"
  by code_simp

text \<open>What the removal of the tag does: only a tag block at the end, after a line feed, goes.\<close>

text \<open>
  In general: a text that ends with a line feed and a tag block loses the block, the
  line feed, and one more line feed before it when there is one; a text without any
  line feed is left as it is.
\<close>

lemma tag_tail_no_line_terminator:
  assumes "tag_tail u"
  shows "list_all (\<lambda>c. \<not> isLineTerminator c) u"
proof -
  from assms have t: "take 9 u = js ''clarvis:[''" and ne: "drop 9 u \<noteq> []"
    and l: "last (drop 9 u) = 0x5D"
    and b: "list_all (\<lambda>c. \<not> isLineTerminator c) (butlast (drop 9 u))"
    by (simp_all add: tag_tail_def Let_def)
  have h: "list_all (\<lambda>c. \<not> isLineTerminator c) (take 9 u)"
    unfolding t by (simp add: js_def isLineTerminator_def)
  have "drop 9 u = butlast (drop 9 u) @ [0x5D]"
    using ne l by (metis append_butlast_last_id)
  moreover have "list_all (\<lambda>c. \<not> isLineTerminator c) (butlast (drop 9 u) @ [0x5D])"
    using b by (simp add: isLineTerminator_def)
  ultimately have d: "list_all (\<lambda>c. \<not> isLineTerminator c) (drop 9 u)" by simp
  have "list_all (\<lambda>c. \<not> isLineTerminator c) (take 9 u @ drop 9 u)"
    using h d by (simp only: list_all_append simp_thms)
  then show ?thesis by simp
qed

lemma tag_tail_without_LF: "tag_tail (xs @ LF # ys) = False"
proof
  assume "tag_tail (xs @ LF # ys)"
  then have "list_all (\<lambda>c. \<not> isLineTerminator c) (xs @ LF # ys)"
    by (rule tag_tail_no_line_terminator)
  then show False by (simp add: isLineTerminator_def LF_def)
qed simp

lemma tag_tail_not_LF_first: "tag_tail block \<Longrightarrow> \<exists>c r. block = c # r \<and> c \<noteq> LF"
  by (cases block) (auto simp: tag_tail_def js_def LF_def)

lemma strip_metadata_trailing_tag:
  assumes "tag_tail block"
  shows "strip_metadata (body @ LF # block)
         = (if body \<noteq> [] \<and> last body = LF then butlast body else body)"
proof (induction body rule: induct_list012)
  case 1
  from tag_tail_not_LF_first[OF assms] obtain c r where "block = c # r" "c \<noteq> LF" by blast
  then show ?case using assms by (simp add: strip_match_here_def)
next
  case (2 b)
  from tag_tail_not_LF_first[OF assms] obtain c r where br: "block = c # r" "c \<noteq> LF" by blast
  have s: "strip_metadata (LF # block) = []"
    using assms br by (simp add: strip_match_here_def)
  show ?case
  proof (cases "b = LF")
    case True
    then show ?thesis using assms by (simp add: strip_match_here_def)
  next
    case False
    then show ?thesis using s by (simp add: strip_match_here_def)
  qed
next
  case (3 b b' bs)
  have a: "tag_tail (bs @ LF # block) = False" by (rule tag_tail_without_LF)
  have "tag_tail ((b' # bs) @ LF # block) = False" by (rule tag_tail_without_LF)
  then have b: "tag_tail (b' # bs @ LF # block) = False" by simp
  have "\<not> strip_match_here (b # b' # bs @ LF # block)"
    by (simp add: strip_match_here_def a b)
  then show ?case using 3(2) by simp
qed

lemma strip_metadata_no_line_feed:
  "LF \<notin> set s \<Longrightarrow> strip_metadata s = s"
  by (induction s) (auto simp: strip_match_here_def)

lemma strip_metadata_examples:
  \<open>strip_metadata (js ''Done.\<newline>\<newline>clarvis:[context:development intent:completion]'')
     = js ''Done.''\<close>
  \<open>strip_metadata (js ''Done.\<newline>clarvis:[context:development intent:completion]'')
     = js ''Done.''\<close>
  \<open>strip_metadata (js ''Done.\<newline>\<newline>\<newline>clarvis:[context:development intent:completion]'')
     = js ''Done.\<newline>''\<close>
  \<open>strip_metadata (js ''Done. clarvis:[context:development intent:completion]'')
     = js ''Done. clarvis:[context:development intent:completion]''\<close>
  \<open>strip_metadata (js ''clarvis:[context:development intent:completion]\<newline>Done.'')
     = js ''clarvis:[context:development intent:completion]\<newline>Done.''\<close>
  by code_simp+

section \<open>Properties of the summarizer\<close>

text \<open>
  C1. With style \<open>bypass\<close>, \<open>summarize\<close> returns the one-element list holding the input
  text, whatever the text is (the empty string too), and makes no provider call.
\<close>

theorem summarize_bypass:
  "summarize rt client text (js ''bypass'') context intent project = ([], Inr [text])"
  by (simp add: summarize_def)

text \<open>
  C9. A style other than \<open>bypass\<close> for which no template is configured, and which is
  not the name of a member that every object inherits, makes \<open>summarize\<close> throw
  \<open>No prompt configured for style: ...\<close> before any provider call.
\<close>

theorem summarize_no_prompt:
  assumes "style \<noteq> js ''bypass''"
    and "prompts client style = None"
    and "style \<notin> set Object_prototype_names"
  shows "summarize rt client text style context intent project
         = ([], Inl (Error (js ''No prompt configured for style: '' @ style)))"
  using assms by (simp add: summarize_def get_prompt_def)

lemma js_bypass_neq_verbose: "js ''verbose'' \<noteq> js ''bypass''"
  by (simp add: js_def)

lemma example_prompts_verbose: "example_prompts (js ''verbose'') = None"
  by (simp add: example_prompts_def js_def)

lemma verbose_not_inherited: "js ''verbose'' \<notin> set Object_prototype_names"
  by (simp add: Object_prototype_names_def js_def)

theorem summarize_no_prompt_witness:
  "summarize example_runtime example_client (js ''Test'') (js ''verbose'')
     (js ''development'') (js ''status'') None
   = ([], Inl (Error (js ''No prompt configured for style: '' @ js ''verbose'')))"
proof -
  have "prompts example_client (js ''verbose'') = None"
    using example_prompts_verbose by (simp add: example_client_def)
  then show ?thesis
    using summarize_no_prompt [OF js_bypass_neq_verbose _ verbose_not_inherited] by blast
qed

text \<open>
  The style \<open>bypass\<close> has no template either, and \<open>summarize\<close> does not fail for it:
  the claim that every style outside the configured templates fails does not hold there.
\<close>

theorem summarize_unconfigured_bypass_counterexample:
  "prompts example_client (js ''bypass'') = None
   \<and> summarize example_runtime example_client (js ''Test'') (js ''bypass'')
         (js ''development'') (js ''status'') None
       = ([], Inr [js ''Test''])"
  by (simp add: summarize_def example_client_def example_prompts_def js_def)

text \<open>
  An inherited member is a truthy value under the style's name, so the check for a
  missing template lets it through and the provider is called.
\<close>

lemma summarize_inherited_member:
  "prompts example_client (js ''constructor'') = None
   \<and> fst (summarize example_runtime example_client (js ''Test'') (js ''constructor'')
            (js ''development'') (js ''status'') None) \<noteq> []"
  by (simp add: summarize_def example_client_def example_prompts_def get_prompt_def
      Object_prototype_names_def example_runtime_def js_def Let_def)

section \<open>Properties of the speech dispatcher\<close>

lemma speak_loop_answered:
  "speak_loop ch cmd st sentences = (st', events, r) \<Longrightarrow>
   \<exists>calls. events = completed_calls calls
     \<and> answered ch st calls st'
     \<and> map fst calls = take (length calls) (map cmd sentences)
     \<and> list_all (\<lambda>cr. snd cr = None) (butlast calls)
     \<and> (case r of
          None \<Rightarrow> length calls = length sentences \<and> list_all (\<lambda>cr. snd cr = None) calls
        | Some e \<Rightarrow> calls \<noteq> [] \<and> snd (last calls) = Some e)"
proof (induction sentences arbitrary: st st' events r)
  case Nil
  then show ?case by (auto simp: completed_calls_def)
next
  case (Cons s ss)
  obtain o1 st1 where ch: "ch st (cmd s) = (o1, st1)" by (cases "ch st (cmd s)")
  show ?case
  proof (cases o1)
    case (Some e)
    with Cons.prems ch have "events = completed_calls [(cmd s, Some e)]" "r = Some e" "st' = st1"
      by (auto simp: completed_calls_def)
    then show ?thesis
      using ch Some by (intro exI[of _ "[(cmd s, Some e)]"]) simp
  next
    case None
    obtain st2 ev2 r2 where rec: "speak_loop ch cmd st1 ss = (st2, ev2, r2)"
      by (cases "speak_loop ch cmd st1 ss") auto
    from Cons.IH[OF rec] obtain calls where c:
      "ev2 = completed_calls calls"
      "answered ch st1 calls st2"
      "map fst calls = take (length calls) (map cmd ss)"
      "list_all (\<lambda>cr. snd cr = None) (butlast calls)"
      "(case r2 of None \<Rightarrow> length calls = length ss \<and> list_all (\<lambda>cr. snd cr = None) calls
        | Some e \<Rightarrow> calls \<noteq> [] \<and> snd (last calls) = Some e)" by blast
    from Cons.prems ch None rec have e: "events = Begin (cmd s) # End (cmd s) None # ev2"
      "r = r2" "st' = st2"
      by auto
    show ?thesis
      apply (rule exI[of _ "(cmd s, None) # calls"])
      using c e ch None by (auto simp: completed_calls_def split: option.splits)
  qed
qed

text \<open>
  C7. The events of one \<open>speak\<close> are those of a list of completed calls, each call's
  end directly after its begin, so no call begins while another is open. The outcome of
  every call is what the channel answered to its command, in the state the call before
  left. The commands are those of the sentences, in the order of the list, up to the
  number of calls made. Every call but the last succeeded. When \<open>speak\<close> returns
  normally every sentence was dispatched and succeeded; when it throws, the error is the
  one the channel answered to the last call, and no later sentence was dispatched.
\<close>

theorem speak_sequential:
  assumes "speak ch vc st sentences mode useCache = (st', events, r)"
  shows "\<exists>calls. events = completed_calls calls
     \<and> answered ch st calls st'
     \<and> map fst calls = take (length calls) (map (speak_command vc mode useCache) sentences)
     \<and> list_all (\<lambda>cr. snd cr = None) (butlast calls)
     \<and> (case r of
          None \<Rightarrow> length calls = length sentences \<and> list_all (\<lambda>cr. snd cr = None) calls
        | Some e \<Rightarrow> calls \<noteq> [] \<and> snd (last calls) = Some e)"
  using assms unfolding speak_def by (rule speak_loop_answered)

lemma speak_second_call_fails:
  "speak second_call_fails system_voice 0 [js ''One.'', js ''Two.'', js ''Three.'']
     (js ''terse'') None
   = (2,
      [Begin ([js ''lspeak'', js ''--provider'', js ''system'', js ''One.''], []),
       End ([js ''lspeak'', js ''--provider'', js ''system'', js ''One.''], []) None,
       Begin ([js ''lspeak'', js ''--provider'', js ''system'', js ''Two.''], []),
       End ([js ''lspeak'', js ''--provider'', js ''system'', js ''Two.''], [])
         (Some (Error (js ''exit code 1'')))],
      Some (Error (js ''exit code 1'')))"
  by (simp add: speak_def speak_command_def buildCommand_def shouldCache_def speak_env_def
      second_call_fails_def system_voice_def truthy_string_def js_def)

theorem speak_sequential_witness:
  "\<exists>calls.
     [Begin ([js ''lspeak'', js ''--provider'', js ''system'', js ''One.''], []),
      End ([js ''lspeak'', js ''--provider'', js ''system'', js ''One.''], []) None,
      Begin ([js ''lspeak'', js ''--provider'', js ''system'', js ''Two.''], []),
      End ([js ''lspeak'', js ''--provider'', js ''system'', js ''Two.''], [])
        (Some (Error (js ''exit code 1'')))]
     = completed_calls calls
     \<and> answered second_call_fails 0 calls 2
     \<and> map fst calls
       = take (length calls)
           (map (speak_command system_voice (js ''terse'') None)
              [js ''One.'', js ''Two.'', js ''Three.''])
     \<and> list_all (\<lambda>cr. snd cr = None) (butlast calls)
     \<and> calls \<noteq> [] \<and> snd (last calls) = Some (Error (js ''exit code 1''))"
  using speak_sequential [OF speak_second_call_fails] by simp

text \<open>
  These conditions leave no choice: whatever satisfies them is the result of \<open>speak\<close>.
\<close>

lemma dispatched_Nil:
  assumes "dispatched ch [] st calls st' r"
  shows "calls = [] \<and> st' = st \<and> r = None"
proof -
  from assms have c: "calls = []" unfolding dispatched_def by simp
  moreover have "st' = st" using assms c unfolding dispatched_def by simp
  moreover have "r = None" using assms c unfolding dispatched_def by (cases r) simp_all
  ultimately show ?thesis by simp
qed

lemma dispatched_Cons:
  assumes "dispatched ch (c # cs) st calls st' r" and "ch st c = (a, st1)"
  shows "\<exists>t. calls = (c, a) # t
           \<and> (case a of Some e \<Rightarrow> t = [] \<and> st' = st1 \<and> r = Some e
               | None \<Rightarrow> dispatched ch cs st1 t st' r)"
proof -
  from assms(1) have d1: "answered ch st calls st'"
    and d2: "map fst calls = take (length calls) (c # cs)"
    and d3: "list_all (\<lambda>cr. snd cr = None) (butlast calls)"
    and d4: "(case r of
           None \<Rightarrow> length calls = length (c # cs) \<and> list_all (\<lambda>cr. snd cr = None) calls
         | Some e \<Rightarrow> calls \<noteq> [] \<and> snd (last calls) = Some e)"
    unfolding dispatched_def by blast+
  have ne: "calls \<noteq> []" using d4 by (cases r) auto
  then obtain x t where x: "calls = x # t" by (cases calls) auto
  obtain c' a' where xp: "x = (c', a')" by (cases x)
  have c': "c' = c" using d2 x xp by simp
  have a': "a' = a" and an: "answered ch st1 t st'"
    using d1 assms(2) x xp c' by simp_all
  show ?thesis
  proof (cases a)
    case (Some e)
    have tn: "t = []"
    proof (rule ccontr)
      assume "t \<noteq> []"
      then have "butlast calls = x # butlast t" using x by simp
      then show False using d3 xp a' Some by simp
    qed
    have st: "st' = st1" using an tn by simp
    have "r = Some e"
    proof (cases r)
      case None
      then show ?thesis using d4 x xp a' Some by simp
    next
      case (Some e')
      then show ?thesis using d4 x xp a' \<open>a = Some e\<close> tn by simp
    qed
    then show ?thesis using x xp c' a' Some tn st by simp
  next
    case None
    have b: "list_all (\<lambda>cr. snd cr = None) (butlast t)"
      using d3 x by (cases t) simp_all
    have m: "map fst t = take (length t) cs" using d2 x by simp
    have "(case r of None \<Rightarrow> length t = length cs \<and> list_all (\<lambda>cr. snd cr = None) t
           | Some e \<Rightarrow> t \<noteq> [] \<and> snd (last t) = Some e)"
    proof (cases r)
      case None
      then show ?thesis using d4 x by simp
    next
      case (Some e)
      have "t \<noteq> []"
      proof
        assume "t = []"
        then show False using d4 Some x xp a' \<open>a = None\<close> by simp
      qed
      then show ?thesis using d4 Some x by simp
    qed
    then have "dispatched ch cs st1 t st' r" using an b m unfolding dispatched_def by blast
    then show ?thesis using x xp c' a' None by simp
  qed
qed

lemma dispatched_unique:
  "dispatched ch cmds st calls st' r \<Longrightarrow> dispatched ch cmds st calls2 st2 r2
   \<Longrightarrow> calls2 = calls \<and> st2 = st' \<and> r2 = r"
proof (induction cmds arbitrary: st calls calls2)
  case Nil
  from dispatched_Nil[OF Nil.prems(1)] dispatched_Nil[OF Nil.prems(2)]
  show ?case by simp
next
  case (Cons c cs)
  obtain a st1 where ch: "ch st c = (a, st1)" by (cases "ch st c")
  from dispatched_Cons[OF Cons.prems(1) ch] obtain t where t0: "calls = (c, a) # t
    \<and> (case a of Some e \<Rightarrow> t = [] \<and> st' = st1 \<and> r = Some e
      | None \<Rightarrow> dispatched ch cs st1 t st' r)" ..
  from dispatched_Cons[OF Cons.prems(2) ch] obtain t2 where t20: "calls2 = (c, a) # t2
    \<and> (case a of Some e \<Rightarrow> t2 = [] \<and> st2 = st1 \<and> r2 = Some e
      | None \<Rightarrow> dispatched ch cs st1 t2 st2 r2)" ..
  show ?case
  proof (cases a)
    case (Some e)
    then show ?thesis using t0 t20 by simp
  next
    case None
    then have d: "dispatched ch cs st1 t st' r" and d2: "dispatched ch cs st1 t2 st2 r2"
      using t0 t20 by simp_all
    from Cons.IH[OF d d2] show ?thesis using t0 t20 by simp
  qed
qed

lemma speak_determined:
  assumes "speak ch vc st sentences mode useCache = (st', events, r)"
    and "dispatched ch (map (speak_command vc mode useCache) sentences) st calls2 st2 r2"
  shows "completed_calls calls2 = events \<and> st2 = st' \<and> r2 = r"
proof -
  from speak_loop_answered[OF assms(1)[unfolded speak_def]] obtain calls where
    e: "events = completed_calls calls"
    and c: "answered ch st calls st'"
      "map fst calls = take (length calls) (map (speak_command vc mode useCache) sentences)"
      "list_all (\<lambda>cr. snd cr = None) (butlast calls)"
      "(case r of
          None \<Rightarrow> length calls = length sentences \<and> list_all (\<lambda>cr. snd cr = None) calls
        | Some e \<Rightarrow> calls \<noteq> [] \<and> snd (last calls) = Some e)"
    by blast
  have d: "dispatched ch (map (speak_command vc mode useCache) sentences) st calls st' r"
    unfolding dispatched_def using c by (cases r) simp_all
  from dispatched_unique[OF d assms(2)] show ?thesis using e by simp
qed

text \<open>
  C2. An explicit \<open>useCache\<close> decides the cache setting. Without one, the dispatcher
  leaves caching on for the style \<open>bypass\<close> and turns it off for the style \<open>full\<close>: the
  command for \<open>bypass\<close> carries no \<open>--no-cache\<close>, the command for \<open>full\<close> does.
\<close>

theorem speak_command_bypass_cached:
  "speak_command system_voice (js ''bypass'') None (js ''Hello.'')
     = ([js ''lspeak'', js ''--provider'', js ''system'', js ''Hello.''], [])
   \<and> speak_command system_voice (js ''full'') None (js ''Hello.'')
     = ([js ''lspeak'', js ''--no-cache'', js ''--provider'', js ''system'', js ''Hello.''], [])"
  by (simp add: speak_command_def buildCommand_def shouldCache_def speak_env_def
      system_voice_def truthy_string_def js_def)

lemma shouldCache_override: "shouldCache mode (Some b) = b"
  by (simp add: shouldCache_def)

lemma shouldCache_default: "shouldCache mode None = (mode \<noteq> js ''full'')"
  by (simp add: shouldCache_def)

section \<open>Properties of the pipeline\<close>







text \<open>The same run with the style \<open>terse\<close>, from the event on the input to the speech.\<close>

lemma main_untagged_terse:
  \<open>main (example_world (js ''terse'')) 0
   = Exit \<lparr>out_calls =
        [\<lparr>call_provider = OllamaProvider (js ''llama2'') (js ''http://localhost:11434/api/generate''),
          call_text = js ''All tests pass.'',
          call_prompt = intentInstruction (js ''assistant'') (js ''discussion'') None
                        @ [LF, LF] @ js ''Be terse'',
          call_topic = js ''general'',
          call_context = js ''assistant''\<rparr>],
      out_events =
        [Begin ([js ''lspeak'', js ''--provider'', js ''system'', js ''Sir, the work is done.''], []),
         End ([js ''lspeak'', js ''--provider'', js ''system'', js ''Sir, the work is done.''], [])
           None],
      out_state = 1,
      out_error = None\<rparr>\<close>
  by code_simp

text \<open>
  A record whose text is a number: \<open>extractMetadata\<close> throws on it, the resolver skips
  the record and finds no message; the callback that was scheduled for it throws too,
  outside every \<open>try\<close>, and the run ends by the rejection that nothing handles.
\<close>

lemma main_unhandled_rejection:
  "extractLastAssistantMessage (w_read_file number_text_world) (js ''/tmp/t.jsonl'') = no_message
   \<and> main number_text_world 0 = UnhandledRejection"
  by code_simp

text \<open>When every text that the loop finds is a string, no callback throws.\<close>

lemma found_text_string: "\<exists>r. found_text (JString t) = Inr r"
  by (simp split: option.splits)

lemma scan_rejections_strings:
  "\<forall>e \<in> set es. \<forall>v. entry_text e = Inr (Some v) \<longrightarrow> (\<exists>t. v = JString t)
   \<Longrightarrow> \<not> scan_rejections es"
proof (induction es)
  case Nil
  show ?case by simp
next
  case (Cons e es)
  have rest: "\<not> scan_rejections es" using Cons by simp
  show ?case
  proof (cases "entry_text e")
    case (Inl err)
    then show ?thesis using rest by simp
  next
    case (Inr found)
    show ?thesis
    proof (cases found)
      case None
      then show ?thesis using Inr rest by simp
    next
      case (Some v)
      then obtain t where "v = JString t" using Cons.prems Inr by auto
      then show ?thesis using Inr Some found_text_string[of t] by auto
    qed
  qed
qed

end
